theory Spec2Isabelle
  imports Main "HOL-Library.Sublist" "HOL-Library.AList"
begin

section \<open>Paths and strings\<close>

text \<open>
  Go strings are byte sequences; they are modelled as \<open>string\<close>. The functions of this
  section are the ones of the Go standard library that \<open>parseDirectory\<close> and
  \<open>filepath.Walk\<close> call (\<open>strings.Contains\<close>, \<open>filepath.Base\<close>, \<open>filepath.Ext\<close>,
  \<open>filepath.Clean\<close>, \<open>filepath.Join\<close>), for the Unix path separator.
\<close>

type_synonym path = string

text \<open>\<open>strings.Contains(s, substr)\<close>: \<open>substr\<close> occurs in \<open>s\<close> (the empty string always does).\<close>

fun Contains :: "string \<Rightarrow> string \<Rightarrow> bool" where
  "Contains [] substr = (substr = [])"
| "Contains (c # s) substr = (prefix substr (c # s) \<or> Contains s substr)"

text \<open>
  \<open>filepath.Base\<close>: the empty path gives \<open>"."\<close>; trailing separators are stripped; the
  result is what follows the last separator, or \<open>"/"\<close> when nothing is left.
\<close>

definition Base :: "path \<Rightarrow> string" where
  "Base p =
     (if p = [] then ''.''
      else let stripped = rev (dropWhile (\<lambda>c. c = CHR ''/'') (rev p));
               elem = rev (takeWhile (\<lambda>c. c \<noteq> CHR ''/'') (rev stripped))
           in if elem = [] then ''/'' else elem)"

text \<open>
  \<open>filepath.Ext\<close>: scanning from the end and stopping at a separator, the suffix that
  starts at the first dot met; empty when there is none.
\<close>

definition Ext :: "path \<Rightarrow> string" where
  "Ext p =
     (let tail = takeWhile (\<lambda>c. c \<noteq> CHR ''/'') (rev p)
      in if CHR ''.'' \<in> set tail
         then CHR ''.'' # rev (takeWhile (\<lambda>c. c \<noteq> CHR ''.'') tail)
         else [])"

text \<open>
  \<open>filepath.Clean\<close>: the elements between separators are taken from left to right;
  empty elements and \<open>.\<close> are dropped; \<open>..\<close> removes the element before it when
  there is one that is not itself \<open>..\<close>, is dropped at the root of a rooted path, and
  is kept otherwise. The elements kept are joined by single separators, after the root
  separator for a rooted path; the empty result is \<open>"."\<close>.
\<close>

fun split_sep :: "string \<Rightarrow> string list" where
  "split_sep [] = [[]]"
| "split_sep (c # cs) =
     (if c = CHR ''/'' then [] # split_sep cs
      else (case split_sep cs of [] \<Rightarrow> [[c]] | x # xs \<Rightarrow> (c # x) # xs))"

fun join_sep :: "string list \<Rightarrow> string" where
  "join_sep [] = []"
| "join_sep [x] = x"
| "join_sep (x # y # ys) = x @ CHR ''/'' # join_sep (y # ys)"

definition clean_step :: "bool \<Rightarrow> string list \<Rightarrow> string \<Rightarrow> string list" where
  "clean_step rooted out elem =
     (if elem = [] \<or> elem = ''.'' then out
      else if elem = ''..'' then
        (if out \<noteq> [] \<and> last out \<noteq> ''..'' then butlast out
         else if rooted then out
         else out @ [elem])
      else out @ [elem])"

definition Clean :: "path \<Rightarrow> path" where
  "Clean p =
     (if p = [] then ''.''
      else let rooted = (hd p = CHR ''/'');
               out = foldl (clean_step rooted) [] (split_sep p);
               cleaned = (if rooted then ''/'' else []) @ join_sep out
           in if cleaned = [] then ''.'' else cleaned)"

text \<open>
  \<open>filepath.Join\<close> of two elements: empty elements are ignored, the others are joined
  by a separator and the result is cleaned.
\<close>

definition Join :: "path \<Rightarrow> string \<Rightarrow> path" where
  "Join dir name =
     (if dir \<noteq> [] then Clean (dir @ ''/'' @ name)
      else if name \<noteq> [] then Clean name
      else [])"

text \<open>The extensions of the condition in \<open>parseDirectory\<close>, in its order.\<close>

definition source_extensions :: "string list" where
  "source_extensions =
     [''.py'', ''.js'', ''.ts'', ''.java'', ''.cpp'', ''.c'', ''.go'', ''.vue'', ''.jsx'', ''.tsx'']"


section \<open>File discovery: \<open>parseDirectory\<close>\<close>

text \<open>
  The directory tree as \<open>filepath.Walk\<close> meets it. An entry is a file (anything
  \<open>Lstat\<close> does not report as a directory), a directory whose entries are read, in the
  order \<open>Walk\<close> lists them, or \<open>Broken\<close>: an entry for which \<open>Lstat\<close> fails or a
  directory whose entries cannot be read. \<open>Walk\<close> reads the entries of a directory
  before it calls the callback on it, and calls the callback on a \<open>Broken\<close> entry with a
  non-nil \<open>err\<close>, which the callback returns before any other test.
\<close>

datatype fsnode = File | Dir "(string \<times> fsnode) list" | Broken

text \<open>What the callback returns: \<open>nil\<close>, \<open>filepath.SkipDir\<close>, or the error it was given.\<close>

datatype walk_result = Proceed | SkipDir | WalkError

text \<open>
  The anonymous callback of \<open>parseDirectory\<close>. \<open>isDir\<close> is \<open>info.IsDir()\<close>,
  \<open>failed\<close> is \<open>err != nil\<close>; the captured slice \<open>files\<close> is passed and returned.
\<close>

definition walkFn ::
  "string list \<Rightarrow> string list \<Rightarrow> path \<Rightarrow> bool \<Rightarrow> bool \<Rightarrow> path list \<Rightarrow> path list \<times> walk_result"
where
  "walkFn excludeDirs excludeFiles p isDir failed files =
     (if failed then (files, WalkError)
      else if isDir then
        (if list_ex (\<lambda>exclude. Contains p exclude) excludeDirs then (files, SkipDir)
         else (files, Proceed))
      else if list_ex (\<lambda>excludeFile. Base p = excludeFile) excludeFiles then (files, Proceed)
      else if Ext p \<in> set source_extensions then (files @ [p], Proceed)
      else (files, Proceed))"

text \<open>
  \<open>filepath.Walk\<close>'s recursion (\<open>walk\<close> in the Go library): the callback is called
  on the entry; a directory is then listed and each entry walked, \<open>SkipDir\<close> from a
  directory entry skipping that entry only, any other non-nil result ending the walk.
\<close>

fun walk ::
  "string list \<Rightarrow> string list \<Rightarrow> path \<Rightarrow> fsnode \<Rightarrow> path list \<Rightarrow> path list \<times> walk_result"
and walk_entries ::
  "string list \<Rightarrow> string list \<Rightarrow> path \<Rightarrow> (string \<times> fsnode) list \<Rightarrow> path list
     \<Rightarrow> path list \<times> walk_result"
where
  "walk exD exF p File files = walkFn exD exF p False False files"
| "walk exD exF p Broken files = walkFn exD exF p False True files"
| "walk exD exF p (Dir entries) files =
     (case walkFn exD exF p True False files of
        (files', Proceed) \<Rightarrow> walk_entries exD exF p entries files'
      | (files', r) \<Rightarrow> (files', r))"
| "walk_entries exD exF p [] files = (files, Proceed)"
| "walk_entries exD exF p ((name, node) # rest) files =
     (case walk exD exF (Join p name) node files of
        (files', Proceed) \<Rightarrow> walk_entries exD exF p rest files'
      | (files', SkipDir) \<Rightarrow>
          (case node of Dir _ \<Rightarrow> walk_entries exD exF p rest files'
           | _ \<Rightarrow> (files', SkipDir))
      | (files', WalkError) \<Rightarrow> (files', WalkError))"

datatype error =
  TraversalError | StoreOpenError | DocsWalkError | DocReadError | CollectionError
  | AddDocumentError | ClientError | QueryError | ChatError

text \<open>
  \<open>parseDirectory\<close>: \<open>Walk\<close> turns a \<open>SkipDir\<close> of the root into \<open>nil\<close>; the
  files gathered so far are returned together with the error.
\<close>

definition parseDirectory ::
  "path \<Rightarrow> string list \<Rightarrow> string list \<Rightarrow> fsnode \<Rightarrow> path list \<times> error option"
where
  "parseDirectory directoryPath excludeDirs excludeFiles tree =
     (case walk excludeDirs excludeFiles directoryPath tree [] of
        (files, WalkError) \<Rightarrow> (files, Some TraversalError)
      | (files, _) \<Rightarrow> (files, None))"

text \<open>
  Every file entry of a tree with its path and the paths of the directories that
  enclose it, the root first. This enumerates the tree only; it applies no filter.
\<close>

fun entries :: "path \<Rightarrow> fsnode \<Rightarrow> (path \<times> path list) list" where
  "entries p File = [(p, [])]"
| "entries p Broken = []"
| "entries p (Dir es) =
     map (\<lambda>(f, ds). (f, p # ds)) (concat (map (\<lambda>(name, node). entries (Join p name) node) es))"




text \<open>A small tree: \<open>/p/login.go\<close>, \<open>/p/logs/a.go\<close> and \<open>/p/x.txt\<close>.\<close>

definition demo_tree :: fsnode where
  "demo_tree = Dir [(''login.go'', File), (''logs'', Dir [(''a.go'', File)]), (''x.txt'', File)]"


section \<open>Thermal guard: \<open>TemperatureMonitor\<close>\<close>

text \<open>
  Go's \<open>int\<close> and \<open>time.Duration\<close> are 64-bit; temperatures, counters and the
  durations of a run stay far from the bounds, so they are unbounded integers here.
  Durations and clock readings are in nanoseconds, as \<open>time.Duration\<close> is.
\<close>

definition Second :: int where
  "Second = 1000000000"

definition Minute :: int where
  "Minute = 60 * Second"

record TemperatureMonitor =
  criticalTemp :: int
  safeTemp :: int
  useFallback :: bool

text \<open>
  \<open>NewTemperatureMonitor\<close>. \<open>sensorsFailed\<close> is the outcome \<open>err != nil\<close> of
  \<open>gosensors.NewFromSystem()\<close>.
\<close>

definition NewTemperatureMonitor :: "int \<Rightarrow> int \<Rightarrow> bool \<Rightarrow> bool \<Rightarrow> TemperatureMonitor" where
  "NewTemperatureMonitor critical safe isNotLocal sensorsFailed =
     \<lparr>criticalTemp = critical, safeTemp = safe,
      useFallback = (if isNotLocal then True else sensorsFailed)\<rparr>"

text \<open>
  What one call of \<open>getTemperature\<close> finds in \<open>tm.sensors.Chips\<close>: the values of the
  entries with key \<open>GPU\<close> and of those with key \<open>CPU\<close>, each converted to an integer
  (\<open>0\<close> when the text does not parse), in the order the chips are iterated.
\<close>

record sensors =
  gpu :: "int list"
  cpu :: "int list"

datatype sensor_error = SensorsUnavailable | NoSensorsFound

text \<open>The two loops over the chips: the first non-zero GPU value, else the first non-zero
  CPU value (the source names both \<open>"gpu"\<close>), else an error.\<close>

definition read_chips :: "sensors \<Rightarrow> int \<times> string \<times> sensor_error option" where
  "read_chips chips =
     (case filter (\<lambda>t. t \<noteq> 0) (gpu chips) of
        t # _ \<Rightarrow> (t, ''gpu'', None)
      | [] \<Rightarrow>
          (case filter (\<lambda>t. t \<noteq> 0) (cpu chips) of
             t # _ \<Rightarrow> (t, ''gpu'', None)
           | [] \<Rightarrow> (0, ''unknown'', Some NoSensorsFound)))"

text \<open>
  \<open>getTemperature\<close>. The readings still to come are a list, one element for each call
  that looks at the sensors; \<open>None\<close> is returned when the list has no reading left.
  In fallback mode the sensors are not looked at.
\<close>

definition getTemperature ::
  "TemperatureMonitor \<Rightarrow> sensors list
     \<Rightarrow> ((int \<times> string \<times> sensor_error option) \<times> sensors list) option"
where
  "getTemperature tm rs =
     (if useFallback tm then Some ((0, ''fallback'', Some SensorsUnavailable), rs)
      else case rs of [] \<Rightarrow> None | r # rest \<Rightarrow> Some (read_chips r, rest))"

text \<open>The "dynamic cooldown calculation" of \<open>CoolDown\<close>, in seconds.\<close>

definition waitSec :: "TemperatureMonitor \<Rightarrow> int \<Rightarrow> int" where
  "waitSec tm temp = (if temp > criticalTemp tm then 5 + (temp - safeTemp tm) else 2)"

datatype sleep_kind =
  BatchPause | FixedCoolDown | RemainingCoolDown | ThermalWait | SensorlessCoolDown

text \<open>
  A computation that waits for the sensors has, on the readings supplied, either returned
  (\<open>Done\<close>) or is still waiting when they end (\<open>Pending\<close>); in both cases it
  carries what it has reached.
\<close>

datatype 'a outcome = Done 'a | Pending 'a

fun reached :: "'a outcome \<Rightarrow> 'a" where
  "reached (Done x) = x"
| "reached (Pending x) = x"

fun returned :: "'a outcome \<Rightarrow> bool" where
  "returned (Done x) = True"
| "returned (Pending x) = False"

fun map_outcome :: "('a \<Rightarrow> 'b) \<Rightarrow> 'a outcome \<Rightarrow> 'b outcome" where
  "map_outcome f (Done x) = Done (f x)"
| "map_outcome f (Pending x) = Pending (f x)"

text \<open>
  \<open>CoolDown\<close>: the loop reads the temperature, returns after a 60 s sleep when the
  reading fails, returns when the reading is below \<open>safeTemp\<close>, and otherwise sleeps
  \<open>waitSec\<close> seconds and reads again. The result is the list of sleeps made and the
  readings left; it is \<open>Pending\<close> when the readings end before the loop returns. (The
  messages printed, and \<open>source\<close> which only they use, are left out.)
\<close>

function CoolDown ::
  "TemperatureMonitor \<Rightarrow> sensors list \<Rightarrow> ((sleep_kind \<times> int) list \<times> sensors list) outcome"
where
  "CoolDown tm rs =
     (case getTemperature tm rs of
        None \<Rightarrow> Pending ([], rs)
      | Some ((temp, source, Some err), rs') \<Rightarrow> Done ([(SensorlessCoolDown, 60 * Second)], rs')
      | Some ((temp, source, None), rs') \<Rightarrow>
          if temp < safeTemp tm then Done ([], rs')
          else map_outcome (\<lambda>(sleeps, rs''). ((ThermalWait, waitSec tm temp * Second) # sleeps, rs''))
                 (CoolDown tm rs'))"
  by pat_completeness auto
termination
  by (relation "measure (\<lambda>(tm, rs). length rs)")
     (auto simp: getTemperature_def split: if_splits list.splits)

declare CoolDown.simps [simp del]


section \<open>The indexing run: \<open>indexCodebase\<close>\<close>

text \<open>
  What a run does to the outside is recorded as a trace of events: the calls of
  \<open>generateComments\<close> and \<open>setFileHash\<close>, the artifact files written, the sleeps,
  the removal of the vector store's directory and the call of \<open>createVectorStore\<close>.
\<close>

datatype event =
    GenerateComments path
  | WriteDoc path path
  | SetFileHash path string
  | Sleep sleep_kind int
  | RemoveStore
  | CreateVectorStore string

text \<open>A \<open>chromem.Document\<close>: its id, its content and the \<open>file_path\<close> of its metadata.\<close>

record document =
  doc_id :: string
  doc_content :: string
  doc_file_path :: path

text \<open>
  The state a run reads and writes: the table \<open>file_hashes\<close>, the artifact files below
  \<open>DocsDir\<close> (path and content; \<open>project_config.json\<close>, which a run also writes in the
  project's directory there, is not part of the model), \<open>ca.vectorDB\<close> and the directory
  \<open>HashDBPath\<close> it is persisted in (collections by name), the counters and times that
  are local variables of
  \<open>indexCodebase\<close>, the clock, the sensor readings to come and the trace.
  \<open>lastCoolDown\<close> is \<open>None\<close> for the zero \<open>time.Time\<close> it starts as.
\<close>

record index_state =
  hashes :: "path \<rightharpoonup> string"
  docs :: "(path \<times> string) list"
  vectorDB :: "string \<rightharpoonup> document list"
  storeDir :: "string \<rightharpoonup> document list"
  processedFiles :: nat
  failedFiles :: nat
  updatedFiles :: nat
  clock :: int
  startTotalTime :: int
  lastCoolDown :: "int option"
  readings :: "sensors list"
  trace :: "event list"

text \<open>
  What the operating system, the database and the model answer for one source file:
  \<open>filepath.Rel\<close>, \<open>calculateMD5Hash\<close>, whether the query of \<open>getFileHash\<close>
  succeeds, \<open>os.MkdirAll\<close>, \<open>ioutil.ReadFile\<close>, \<open>generateComments\<close>,
  \<open>ioutil.WriteFile\<close>, whether the statement of \<open>setFileHash\<close> succeeds (\<open>None\<close> and
  \<open>False\<close> are the error returns), and the time the work on the file takes.
\<close>

record file_io =
  rel_path :: "string option"
  md5_hash :: "string option"
  hash_query_ok :: bool
  mkdir_ok :: bool
  source_code :: "string option"
  comments :: "string option"
  write_ok :: bool
  hash_store_ok :: bool
  work_time :: int

definition maxFileProcessTime :: int where
  "maxFileProcessTime = 30 * Second"

definition maxTotalProcessTime :: int where
  "maxTotalProcessTime = 5 * Minute"

definition coolDownPeriod :: int where
  "coolDownPeriod = 60 * Second"

text \<open>\<open>time.Sleep(d)\<close>: returns at once when \<open>d\<close> is not positive.\<close>

definition sleep :: "sleep_kind \<Rightarrow> int \<Rightarrow> index_state \<Rightarrow> index_state" where
  "sleep k d s = s\<lparr>clock := clock s + max 0 d, trace := trace s @ [Sleep k d]\<rparr>"

text \<open>\<open>tempMonitor.CoolDown()\<close> on the readings of the state.\<close>

definition runCoolDown :: "TemperatureMonitor \<Rightarrow> index_state \<Rightarrow> index_state outcome" where
  "runCoolDown tm s =
     map_outcome (\<lambda>(sleeps, rs'). foldl (\<lambda>s' (k, d). sleep k d s') (s\<lparr>readings := rs'\<rparr>) sleeps)
       (CoolDown tm (readings s))"

text \<open>The temperature check that both cooldown blocks share: read, and cool down when the
  reading is at least \<open>criticalTemp\<close> (the error of \<open>getTemperature\<close> is ignored).\<close>

definition thermal_check :: "TemperatureMonitor \<Rightarrow> index_state \<Rightarrow> index_state outcome" where
  "thermal_check tm s =
     (case getTemperature tm (readings s) of
        None \<Rightarrow> Pending s
      | Some ((temp, source, err), rs') \<Rightarrow>
          if temp \<ge> criticalTemp tm then runCoolDown tm (s\<lparr>readings := rs'\<rparr>)
          else Done (s\<lparr>readings := rs'\<rparr>))"

text \<open>The block "check if we need cooldown" at the head of the loop body.\<close>

definition cooldown_before_file :: "TemperatureMonitor \<Rightarrow> index_state \<Rightarrow> index_state outcome" where
  "cooldown_before_file tm s =
     (case lastCoolDown s of
        None \<Rightarrow> Done s
      | Some l \<Rightarrow>
          if clock s - l < coolDownPeriod then
            (if useFallback tm then Done (sleep RemainingCoolDown (coolDownPeriod - (clock s - l)) s)
             else thermal_check tm s)
          else Done s)"

text \<open>The block "check for cooldown triggers after processing each file" at the end of
  the loop body.\<close>

definition cooldown_after_file ::
  "TemperatureMonitor \<Rightarrow> int \<Rightarrow> index_state \<Rightarrow> index_state outcome"
where
  "cooldown_after_file tm fileStartTime s =
     (let fileProcessTime = clock s - fileStartTime;
          totalProcessTime = clock s - startTotalTime s
      in if useFallback tm \<and> fileProcessTime > maxFileProcessTime
            \<or> totalProcessTime > maxTotalProcessTime
         then let s1 = sleep FixedCoolDown coolDownPeriod (s\<lparr>lastCoolDown := Some (clock s)\<rparr>)
              in Done (s1\<lparr>startTotalTime := clock s1\<rparr>)
         else thermal_check tm s)"

text \<open>\<open>failedFiles++\<close> followed by \<open>continue\<close>.\<close>

definition file_failed :: "index_state \<Rightarrow> index_state outcome" where
  "file_failed s = Done (s\<lparr>failedFiles := failedFiles s + 1\<rparr>)"

text \<open>The content written to an artifact file.\<close>

definition doc_text :: "string \<Rightarrow> string \<Rightarrow> string" where
  "doc_text relPath generated = ''File: '' @ relPath @ [CHR 0x0A] @ generated"

text \<open>The tail of the loop body, from \<open>processedFiles++\<close> on: the pause after every
  tenth processed file, \<open>setFileHash\<close>, and the cooldown triggers.\<close>

definition commit_file ::
  "TemperatureMonitor \<Rightarrow> file_io \<Rightarrow> path \<Rightarrow> string \<Rightarrow> int \<Rightarrow> index_state \<Rightarrow> index_state outcome"
where
  "commit_file tm io file currentHash fileStartTime s =
     (let s1 = s\<lparr>processedFiles := processedFiles s + 1\<rparr>;
          s2 = (if processedFiles s1 mod 10 = 0 then sleep BatchPause (10 * Second) s1 else s1);
          s3 = s2\<lparr>trace := trace s2 @ [SetFileHash file currentHash]\<rparr>;
          s4 = (if hash_store_ok io then s3\<lparr>hashes := (hashes s3)(file \<mapsto> currentHash)\<rparr>
                else s3\<lparr>failedFiles := failedFiles s3 + 1\<rparr>)
      in cooldown_after_file tm fileStartTime s4)"

text \<open>The part of the loop body for a file found new or modified, from
  \<open>updatedFiles++\<close> to the writing of the artifact.\<close>

definition document_file ::
  "TemperatureMonitor \<Rightarrow> file_io \<Rightarrow> path \<Rightarrow> string \<Rightarrow> path \<Rightarrow> string \<Rightarrow> int
     \<Rightarrow> index_state \<Rightarrow> index_state outcome"
where
  "document_file tm io file relPath docPath currentHash fileStartTime s =
     (let s1 = s\<lparr>updatedFiles := updatedFiles s + 1\<rparr>
      in if \<not> mkdir_ok io then file_failed s1
         else case source_code io of
           None \<Rightarrow> file_failed s1
         | Some code \<Rightarrow>
             (let s2 = s1\<lparr>trace := trace s1 @ [GenerateComments file]\<rparr>
              in (case comments io of
                None \<Rightarrow> file_failed s2
              | Some generated \<Rightarrow>
                  if \<not> write_ok io then file_failed s2
                  else commit_file tm io file currentHash fileStartTime
                         (s2\<lparr>docs := AList.update docPath (doc_text relPath generated) (docs s2),
                             trace := trace s2 @ [WriteDoc file docPath]\<rparr>))))"

text \<open>
  One iteration of \<open>for _, file := range files\<close>. The time the work on the file takes
  passes after the cooldown check at the head of the body.
\<close>

definition process_file ::
  "TemperatureMonitor \<Rightarrow> path \<Rightarrow> (path \<Rightarrow> file_io) \<Rightarrow> path \<Rightarrow> index_state \<Rightarrow> index_state outcome"
where
  "process_file tm projectDocsDir world file s =
     (let io = world file; fileStartTime = clock s
      in case cooldown_before_file tm s of
        Pending s0 \<Rightarrow> Pending s0
      | Done s0 \<Rightarrow>
          (let s1 = s0\<lparr>clock := clock s0 + max 0 (work_time io)\<rparr>
           in (case rel_path io of
             None \<Rightarrow> file_failed s1
           | Some relPath \<Rightarrow>
               (let docPath = Join projectDocsDir (relPath @ ''.txt'')
                in (case md5_hash io of
                  None \<Rightarrow> file_failed s1
                | Some currentHash \<Rightarrow>
                    if \<not> hash_query_ok io then file_failed s1
                    else if hashes s1 file = Some currentHash then Done s1
                    else document_file tm io file relPath docPath currentHash fileStartTime
                           s1)))))"

fun index_files ::
  "TemperatureMonitor \<Rightarrow> path \<Rightarrow> (path \<Rightarrow> file_io) \<Rightarrow> path list \<Rightarrow> index_state
     \<Rightarrow> index_state outcome"
where
  "index_files tm projectDocsDir world [] s = Done s"
| "index_files tm projectDocsDir world (file # files) s =
     (case process_file tm projectDocsDir world file s of
        Pending s' \<Rightarrow> Pending s'
      | Done s' \<Rightarrow> index_files tm projectDocsDir world files s')"


subsection \<open>The rebuild of the vector store\<close>

definition TrimPrefix :: "string \<Rightarrow> string \<Rightarrow> string" where
  "TrimPrefix s pre = (if prefix pre s then drop (length pre) s else s)"

definition TrimSuffix :: "string \<Rightarrow> string \<Rightarrow> string" where
  "TrimSuffix s suf = (if suffix suf s then take (length s - length suf) s else s)"

text \<open>
  What the file system, the vector database and the embedding model answer during a
  rebuild: whether \<open>os.RemoveAll\<close> removes the store's directory (its error is not
  looked at; a removal that fails is taken to leave the directory as it was), whether
  \<open>chromem.NewPersistentDB\<close> succeeds after it, whether the walk over the project's
  documentation directory meets no error, whether an artifact file can be read, whether
  \<open>CreateCollection\<close> succeeds, and whether \<open>AddDocument\<close> (which embeds the
  document) succeeds for a document id.
\<close>

record store_io =
  remove_ok :: bool
  reopen_ok :: bool
  docs_walk_ok :: bool
  doc_readable :: "path \<Rightarrow> bool"
  create_collection_ok :: bool
  add_document_ok :: "string \<Rightarrow> bool"

text \<open>The \<open>chromem.Document\<close> that \<open>createVectorStore\<close> builds from an artifact file.\<close>

definition artifact_document :: "path \<Rightarrow> path \<Rightarrow> path \<times> string \<Rightarrow> document" where
  "artifact_document projectDocsDir codebasePath =
     (\<lambda>(p, content).
        let relPath = TrimSuffix (TrimPrefix p (projectDocsDir @ ''/'')) ''.txt''
        in \<lparr>doc_id = relPath, doc_content = content, doc_file_path = Join codebasePath relPath\<rparr>)"

text \<open>
  The order in which \<open>filepath.Walk\<close> meets the files below a directory: the entries
  of every directory are taken in the order of \<open>sort.Strings\<close> (bytewise), a directory
  being walked to its end before its next sibling, so that two files are met in the
  lexicographic order of their lists of path elements.
\<close>

fun bytes_less :: "string \<Rightarrow> string \<Rightarrow> bool" where
  "bytes_less [] [] = False"
| "bytes_less [] (y # ys) = True"
| "bytes_less (x # xs) [] = False"
| "bytes_less (x # xs) (y # ys) =
     ((of_char x :: nat) < of_char y \<or> (x = y \<and> bytes_less xs ys))"

fun walked_before :: "string list \<Rightarrow> string list \<Rightarrow> bool" where
  "walked_before [] ys = True"
| "walked_before (x # xs) [] = False"
| "walked_before (x # xs) (y # ys) = (bytes_less x y \<or> (x = y \<and> walked_before xs ys))"

fun insert_walked :: "path \<times> string \<Rightarrow> (path \<times> string) list \<Rightarrow> (path \<times> string) list" where
  "insert_walked a [] = [a]"
| "insert_walked a (b # bs) =
     (if walked_before (split_sep (fst a)) (split_sep (fst b)) then a # b # bs
      else b # insert_walked a bs)"

definition walk_order :: "(path \<times> string) list \<Rightarrow> (path \<times> string) list" where
  "walk_order files = foldr insert_walked files []"

text \<open>
  Files are named by their cleaned paths, as \<open>filepath.Join\<close> and \<open>filepath.Walk\<close>
  produce them. A file lies below a directory when its path continues the directory's by
  a separator and further elements, the first of them not \<open>..\<close>; below \<open>.\<close> the
  path is any relative one, below \<open>/\<close> any rooted one.
\<close>

definition below :: "path \<Rightarrow> path \<Rightarrow> bool" where
  "below dir p =
     (case (if dir = ''.'' then (if take 1 p = ''/'' then None else Some p)
            else if dir = ''/'' then (if take 1 p = ''/'' then Some (drop 1 p) else None)
            else if prefix (dir @ ''/'') p then Some (drop (length dir + 1) p)
            else None) of
        None \<Rightarrow> False
      | Some rest \<Rightarrow> rest \<noteq> [] \<and> rest \<noteq> ''.'' \<and> hd (split_sep rest) \<noteq> ''..'')"

text \<open>The artifact files that the walk of \<open>createVectorStore\<close> turns into documents:
  the \<open>.txt\<close> files that the walk from the project's documentation directory meets
  (the root itself, were it a file, and everything below it), in the order of the walk.\<close>

definition project_artifacts :: "path \<Rightarrow> (path \<times> string) list \<Rightarrow> (path \<times> string) list" where
  "project_artifacts projectDocsDir files =
     walk_order (filter (\<lambda>(p, content). (p = projectDocsDir \<or> below projectDocsDir p) \<and>
                                      suffix ''.txt'' p) files)"

text \<open>
  \<open>createVectorStore\<close>: every \<open>.txt\<close> file that the walk of the project's
  documentation directory meets becomes a document; an error of the walk or of a read
  returns before anything is created; the collection is created, replacing in
  \<open>ca.vectorDB\<close> one of the same name, and the documents are added one by one, the
  first failure returning with the documents added so far in the collection. In the
  store's directory \<open>CreateCollection\<close> removes nothing: a document file left there by an
  earlier collection of that name stays unless a document of the same id is added.
\<close>

definition createVectorStore ::
  "path \<Rightarrow> store_io \<Rightarrow> string \<Rightarrow> path \<Rightarrow> index_state \<Rightarrow> error option \<times> index_state"
where
  "createVectorStore docsDir sio projectName codebasePath s =
     (let projectDocsDir = Join docsDir projectName;
          artifacts = project_artifacts projectDocsDir (docs s)
      in if \<not> docs_walk_ok sio then (Some DocsWalkError, s)
         else if list_ex (\<lambda>(p, content). \<not> doc_readable sio p) artifacts
         then (Some DocReadError, s)
         else if \<not> create_collection_ok sio then (Some CollectionError, s)
         else
           let documents = map (artifact_document projectDocsDir codebasePath) artifacts;
               added = takeWhile (\<lambda>d. add_document_ok sio (doc_id d)) documents;
               left = filter (\<lambda>d. doc_id d \<notin> set (map doc_id added))
                        (case storeDir s projectName of None \<Rightarrow> [] | Some old \<Rightarrow> old);
               s' = s\<lparr>vectorDB := (vectorDB s)(projectName \<mapsto> added),
                       storeDir := (storeDir s)(projectName \<mapsto> added @ left)\<rparr>
           in (if length added = length documents then None else Some AddDocumentError, s'))"

definition defaultExcludes :: "string list" where
  "defaultExcludes =
     [''/node_modules'', ''/venv'', ''/build'', ''/dist'', ''/.venv'', ''/log'',
      ''/node_modules/'', ''/venv/'', ''/build/'', ''/dist/'', ''/.venv/'', ''/log/'',
      ''/.vite/'', ''/.git/'']"

text \<open>The block \<open>if updatedFiles > 0\<close> that ends \<open>indexCodebase\<close>:
  \<open>os.RemoveAll(HashDBPath)\<close>, a new persistent database loaded from what the directory
  then holds, and \<open>createVectorStore\<close>.\<close>

definition rebuild_store ::
  "path \<Rightarrow> store_io \<Rightarrow> string \<Rightarrow> path \<Rightarrow> index_state \<Rightarrow> error option \<times> index_state"
where
  "rebuild_store docsDir sio projectName codebasePath s =
     (if updatedFiles s > 0 then
        let s1 = s\<lparr>storeDir := (if remove_ok sio then Map.empty else storeDir s),
                     trace := trace s @ [RemoveStore]\<rparr>
        in if \<not> reopen_ok sio then (Some StoreOpenError, s1)
           else createVectorStore docsDir sio projectName codebasePath
                  (s1\<lparr>vectorDB := storeDir s1, trace := trace s1 @ [CreateVectorStore projectName]\<rparr>)
      else (None, s))"

text \<open>
  \<open>indexCodebase\<close>, from the resolved project name, path and exclusions on (the
  prompts, the loading and saving of the project's configuration file and the ticker that
  saves it during the run are left out: they touch neither the hash table, the artifacts
  nor the vector store). \<open>isLocalHost\<close> is
  whether \<open>OllamaHost\<close> contains \<open>localhost\<close>. The local variables of the function are
  fields of the state and get their initial values on entry (\<open>run_start\<close>:
  \<open>processedFiles\<close>, \<open>failedFiles\<close> and \<open>updatedFiles\<close> are 0, \<open>startTotalTime\<close> is
  \<open>time.Now()\<close>, \<open>lastCoolDown\<close> is the zero time). The result is \<open>Pending\<close>,
  with the state reached, when the sensor readings end before the run does, in particular
  inside a \<open>CoolDown\<close> that has not returned.
\<close>

definition run_start :: "index_state \<Rightarrow> index_state" where
  "run_start s =
     s\<lparr>processedFiles := 0, failedFiles := 0, updatedFiles := 0,
       startTotalTime := clock s, lastCoolDown := None\<rparr>"

definition indexCodebase ::
  "path \<Rightarrow> bool \<Rightarrow> bool \<Rightarrow> string \<Rightarrow> path \<Rightarrow> string list \<Rightarrow> string list \<Rightarrow> fsnode
     \<Rightarrow> (path \<Rightarrow> file_io) \<Rightarrow> store_io \<Rightarrow> index_state \<Rightarrow> (error option \<times> index_state) outcome"
where
  "indexCodebase docsDir isLocalHost sensorsFailed projectName codebasePath exclude excludeFiles
       tree world sio s =
     (let projectDocsDir = Join docsDir projectName;
          s0 = run_start s
      in case parseDirectory codebasePath (exclude @ defaultExcludes) excludeFiles tree of
        (files, Some err) \<Rightarrow> Done (Some err, s0)
      | (files, None) \<Rightarrow>
          (let tempMonitor = NewTemperatureMonitor 80 65 (\<not> isLocalHost) sensorsFailed
           in (case index_files tempMonitor projectDocsDir world files s0 of
                 Pending s1 \<Rightarrow> Pending (None, s1)
               | Done s1 \<Rightarrow> Done (rebuild_store docsDir sio projectName codebasePath s1))))"


section \<open>The query path: \<open>searchCodebase\<close>\<close>

text \<open>
  The vector database is the library chromem-go (v0.7.0 in \<open>go.mod\<close>). Of it,
  \<open>searchCodebase\<close> calls \<open>DB.GetCollection\<close>, which returns a \<open>*Collection\<close> that is
  \<open>nil\<close> when the database has no collection of that name, and the method
  \<open>Collection.Query\<close> on the pointer returned. \<open>Query\<close> returns an error for an empty
  query text; it then calls the embedding function held in a field of its receiver, which
  for a \<open>nil\<close> receiver is a nil-pointer dereference: the goroutine panics. On a
  collection, it returns an error when the embedding fails or when more results are asked
  for than the collection has documents, and the best-ranked documents otherwise.
\<close>

datatype 'a go_result = Returned 'a | Panic

text \<open>What the collaborators answer during a query: whether the Ollama client can be
  made, whether the query can be embedded, the documents of a collection by decreasing
  similarity to the query, and the answer of the chat model to a prompt.\<close>

record query_io =
  client_ok :: bool
  embed_ok :: bool
  ranked :: "document list \<Rightarrow> document list"
  chat :: "string \<Rightarrow> string option"

definition GetCollection :: "(string \<rightharpoonup> document list) \<Rightarrow> string \<Rightarrow> document list option" where
  "GetCollection db name = db name"

definition Query ::
  "document list option \<Rightarrow> query_io \<Rightarrow> string \<Rightarrow> nat \<Rightarrow> (error + document list) go_result"
where
  "Query collec io queryText nResults =
     (if queryText = [] then Returned (Inl QueryError)
      else case collec of
        None \<Rightarrow> Panic
      | Some documents \<Rightarrow>
          if \<not> embed_ok io then Returned (Inl QueryError)
          else if nResults = 0 then Returned (Inl QueryError)
          else if nResults > length documents then Returned (Inl QueryError)
          else Returned (Inr (take nResults (ranked io documents))))"

definition search_prompt :: "string \<Rightarrow> string \<Rightarrow> string" where
  "search_prompt code query =
     [CHR 0x0A, CHR 0x09, CHR 0x09] @ ''Context: '' @ code @
     [CHR 0x0A, CHR 0x09, CHR 0x09] @ ''Question: '' @ query @
     [CHR 0x0A, CHR 0x09, CHR 0x09] @
     ''Answer query clearly and concisely, include relevant file paths when applicable. '' @
     ''Your answer should be related to this codebase only''"

text \<open>\<open>searchCodebase\<close>: the pair returned is the answer and the error.\<close>

definition searchCodebase ::
  "(string \<rightharpoonup> document list) \<Rightarrow> query_io \<Rightarrow> string \<Rightarrow> string
     \<Rightarrow> (string \<times> error option) go_result"
where
  "searchCodebase db io projectName query =
     (if \<not> client_ok io then Returned ([], Some ClientError)
      else case Query (GetCollection db projectName) io query 1 of
        Panic \<Rightarrow> Panic
      | Returned (Inl err) \<Rightarrow> Returned ([], Some QueryError)
      | Returned (Inr results) \<Rightarrow>
          (let code = concat (map doc_content results)
           in (case chat io (search_prompt code query) of
                 None \<Rightarrow> Returned ([], Some ChatError)
               | Some answer \<Rightarrow> Returned (answer, None))))"


text \<open>A reading with one GPU value, and the temperature a reading yields when
  \<open>getTemperature\<close> reports no error for it.\<close>

definition hot :: "int \<Rightarrow> sensors" where
  "hot t = \<lparr>gpu = [t], cpu = []\<rparr>"

definition reading :: "sensors \<Rightarrow> int option" where
  "reading r = (case read_chips r of (temp, source, None) \<Rightarrow> Some temp | _ \<Rightarrow> None)"


subsection \<open>Predicates on states and traces\<close>

fun is_cooldown_sleep :: "event \<Rightarrow> bool" where
  "is_cooldown_sleep (Sleep k d) = (k \<noteq> BatchPause)"
| "is_cooldown_sleep e = False"

definition cooled :: "index_state \<Rightarrow> index_state \<Rightarrow> event list \<Rightarrow> bool" where
  "cooled s s' new =
     (trace s' = trace s @ new \<and> list_all is_cooldown_sleep new \<and>
      hashes s' = hashes s \<and> docs s' = docs s \<and> vectorDB s' = vectorDB s \<and>
      storeDir s' = storeDir s \<and> processedFiles s' = processedFiles s \<and>
      failedFiles s' = failedFiles s \<and> updatedFiles s' = updatedFiles s)"

definition batch_pause :: "nat \<Rightarrow> event list" where
  "batch_pause n = (if Suc n mod 10 = 0 then [Sleep BatchPause (10 * Second)] else [])"

definition needs_indexing :: "(path \<Rightarrow> file_io) \<Rightarrow> (path \<rightharpoonup> string) \<Rightarrow> path \<Rightarrow> bool" where
  "needs_indexing world hs file =
     (case (rel_path (world file), md5_hash (world file)) of
        (Some relPath, Some currentHash) \<Rightarrow>
          hash_query_ok (world file) \<and> hs file \<noteq> Some currentHash
      | _ \<Rightarrow> False)"

fun commits_after_writes :: "path set \<Rightarrow> event list \<Rightarrow> bool" where
  "commits_after_writes W [] = True"
| "commits_after_writes W (SetFileHash f h # es) = (f \<in> W \<and> commits_after_writes W es)"
| "commits_after_writes W (WriteDoc f d # es) = commits_after_writes (insert f W) es"
| "commits_after_writes W (e # es) = commits_after_writes W es"

fun batch_pauses_ok :: "nat \<Rightarrow> event list \<Rightarrow> bool" where
  "batch_pauses_ok n [] = True"
| "batch_pauses_ok n (WriteDoc f d # es) =
     (if Suc n mod 10 = 0
      then (case es of
              Sleep BatchPause t # es' \<Rightarrow> t = 10 * Second \<and> batch_pauses_ok (Suc n) es'
            | _ \<Rightarrow> False)
      else batch_pauses_ok (Suc n) es)"
| "batch_pauses_ok n (Sleep BatchPause t # es) = False"
| "batch_pauses_ok n (e # es) = batch_pauses_ok n es"

fun is_write :: "event \<Rightarrow> bool" where
  "is_write (WriteDoc f d) = True"
| "is_write e = False"

definition count_writes :: "event list \<Rightarrow> nat" where
  "count_writes es = length (filter is_write es)"

fun is_rebuild_event :: "event \<Rightarrow> bool" where
  "is_rebuild_event RemoveStore = True"
| "is_rebuild_event (CreateVectorStore p) = True"
| "is_rebuild_event e = False"

definition artifact_paths :: "path \<Rightarrow> (path \<Rightarrow> file_io) \<Rightarrow> path list \<Rightarrow> path list" where
  "artifact_paths dir world files =
     map (\<lambda>relPath. Join dir (relPath @ ''.txt'')) (List.map_filter (\<lambda>f. rel_path (world f)) files)"

text \<open>What the loop over the files guarantees of the events it adds and of the state.\<close>

definition loop_summary ::
  "path \<Rightarrow> (path \<Rightarrow> file_io) \<Rightarrow> path list \<Rightarrow> index_state \<Rightarrow> index_state \<Rightarrow> event list \<Rightarrow> bool"
where
  "loop_summary dir world files s s' new =
     (trace s' = trace s @ new \<and> commits_after_writes {} new \<and>
      batch_pauses_ok (processedFiles s) new \<and>
      processedFiles s' = processedFiles s + count_writes new \<and>
      \<not> list_ex is_rebuild_event new \<and>
      vectorDB s' = vectorDB s \<and> storeDir s' = storeDir s \<and>
      (\<forall>g. g \<notin> set files \<longrightarrow> hashes s' g = hashes s g) \<and>
      (\<forall>p. p \<notin> set (artifact_paths dir world files) \<longrightarrow> map_of (docs s') p = map_of (docs s) p))"


text \<open>The events that the block \<open>if updatedFiles > 0\<close> adds to the trace.\<close>

definition rebuild_events :: "store_io \<Rightarrow> string \<Rightarrow> nat \<Rightarrow> event list" where
  "rebuild_events sio projectName updated =
     (if updated > 0
      then (if reopen_ok sio then [RemoveStore, CreateVectorStore projectName] else [RemoveStore])
      else [])"


text \<open>A file whose path, hash and stored hash are obtained without error and whose
  hash equals the stored one.\<close>

definition unchanged_file :: "(path \<Rightarrow> file_io) \<Rightarrow> (path \<rightharpoonup> string) \<Rightarrow> path \<Rightarrow> bool" where
  "unchanged_file world hs file =
     (case (rel_path (world file), md5_hash (world file)) of
        (Some relPath, Some currentHash) \<Rightarrow>
          hash_query_ok (world file) \<and> hs file = Some currentHash
      | _ \<Rightarrow> False)"


subsection \<open>A small project\<close>

text \<open>
  A world in which every step on every file succeeds, the hash of every file being
  \<open>h1\<close> and the work on a file taking one second; a store for which everything
  succeeds but, when \<open>reopen\<close> is false, the opening of the new database; and a state
  whose vector database holds a collection of another project.
\<close>

definition demo_io :: file_io where
  "demo_io =
     \<lparr>rel_path = Some ''login.go'', md5_hash = Some ''h1'', hash_query_ok = True,
      mkdir_ok = True, source_code = Some ''package main'', comments = Some ''Package main.'',
      write_ok = True, hash_store_ok = True, work_time = Second\<rparr>"

definition demo_world :: "path \<Rightarrow> file_io" where
  "demo_world = (\<lambda>file. demo_io)"

definition demo_store :: "bool \<Rightarrow> store_io" where
  "demo_store reopen =
     \<lparr>remove_ok = True, reopen_ok = reopen, docs_walk_ok = True, doc_readable = (\<lambda>p. True),
      create_collection_ok = True, add_document_ok = (\<lambda>d. True)\<rparr>"

definition other_document :: document where
  "other_document = \<lparr>doc_id = ''a.py'', doc_content = ''File: a.py'', doc_file_path = ''/q/a.py''\<rparr>"

definition demo_state :: index_state where
  "demo_state =
     \<lparr>hashes = Map.empty, docs = [], vectorDB = [''other'' \<mapsto> [other_document]],
      storeDir = [''other'' \<mapsto> [other_document]], processedFiles = 0, failedFiles = 0,
      updatedFiles = 0, clock = 0, startTotalTime = 0, lastCoolDown = None, readings = [],
      trace = []\<rparr>"

text \<open>
  Indexing the small tree as project \<open>demo\<close> from that state on a remote host (so in
  fallback mode), with the given store; the monitor of such a run; and a world in which
  the documentation model fails.
\<close>

definition demo_run :: "bool \<Rightarrow> index_state \<Rightarrow> (error option \<times> index_state) outcome" where
  "demo_run reopen s =
     indexCodebase ''docs'' False False ''demo'' ''/p'' [] [] demo_tree demo_world
       (demo_store reopen) s"

definition fallback_monitor :: TemperatureMonitor where
  "fallback_monitor = NewTemperatureMonitor 80 65 True False"

definition failing_world :: "path \<Rightarrow> file_io" where
  "failing_world = (\<lambda>file. demo_io\<lparr>comments := None\<rparr>)"

text \<open>A world in which the work on a file takes forty seconds.\<close>

definition slow_world :: "path \<Rightarrow> file_io" where
  "slow_world = (\<lambda>file. demo_io\<lparr>work_time := 40 * Second\<rparr>)"

text \<open>A world in which the work on a file takes four hundred seconds and the
  documentation model then fails; and the monitor of a run on the local host with
  sensors.\<close>

definition slow_failing_world :: "path \<Rightarrow> file_io" where
  "slow_failing_world = (\<lambda>file. demo_io\<lparr>comments := None, work_time := 400 * Second\<rparr>)"

definition sensor_monitor :: TemperatureMonitor where
  "sensor_monitor = NewTemperatureMonitor 80 65 False False"






section \<open>Properties\<close>

subsection \<open>File discovery\<close>

lemma Contains_sublist: "Contains s sub \<longleftrightarrow> sublist sub s"
  by (induction s) (auto simp: sublist_Cons_right)











lemma demo_run_relative_root:
  "parseDirectory ''.'' [''/log''] [] demo_tree = ([''login.go'', ''logs/a.go''], None)"
  by (simp add: demo_tree_def parseDirectory_def walkFn_def Join_def Clean_def clean_step_def
      Base_def Ext_def source_extensions_def)

lemma demo_run_unreadable_excluded:
  "parseDirectory ''/p'' [''/node_modules''] []
     (Dir [(''a.go'', File), (''node_modules'', Broken), (''b.go'', File)])
   = ([''/p/a.go''], Some TraversalError)"
  by (simp add: parseDirectory_def walkFn_def Join_def Clean_def clean_step_def
      Base_def Ext_def source_extensions_def)

lemma demo_run: "parseDirectory ''/p'' [''/log''] [] demo_tree = ([''/p/login.go''], None)"
  by (simp add: demo_tree_def parseDirectory_def walkFn_def Join_def Clean_def clean_step_def
      Base_def Ext_def source_extensions_def)




subsection \<open>Thermal guard\<close>

lemma CoolDown_fallback:
  "useFallback tm \<Longrightarrow> CoolDown tm rs = Done ([(SensorlessCoolDown, 60 * Second)], rs)"
  by (subst CoolDown.simps) (simp add: getTemperature_def)

lemma CoolDown_Nil: "\<not> useFallback tm \<Longrightarrow> CoolDown tm [] = Pending ([], [])"
  by (subst CoolDown.simps) (simp add: getTemperature_def)

lemma CoolDown_Cons:
  "\<not> useFallback tm \<Longrightarrow>
   CoolDown tm (r # rs) =
     (case read_chips r of
        (temp, source, Some err) \<Rightarrow> Done ([(SensorlessCoolDown, 60 * Second)], rs)
      | (temp, source, None) \<Rightarrow>
          if temp < safeTemp tm then Done ([], rs)
          else map_outcome
                 (\<lambda>(sleeps, rs''). ((ThermalWait, waitSec tm temp * Second) # sleeps, rs''))
                 (CoolDown tm rs))"
  by (subst CoolDown.simps) (simp add: getTemperature_def split: prod.splits option.splits)

lemma CoolDown_all_above_safe:
  "\<not> useFallback tm \<Longrightarrow> \<forall>r\<in>set rs. \<exists>t. reading r = Some t \<and> safeTemp tm \<le> t \<Longrightarrow>
   CoolDown tm rs =
     Pending (map (\<lambda>c. (ThermalWait, waitSec tm (fst (read_chips c)) * Second)) rs, [])"
proof (induction rs)
  case Nil
  then show ?case by (simp add: CoolDown_Nil)
next
  case (Cons r rs)
  then show ?case
    by (auto simp: CoolDown_Cons reading_def split: prod.splits option.splits)
qed

lemma CoolDown_until_safe:
  "\<not> useFallback tm \<Longrightarrow> \<forall>r\<in>set cs. \<exists>t. reading r = Some t \<and> safeTemp tm \<le> t \<Longrightarrow>
   reading r = Some t \<Longrightarrow> t < safeTemp tm \<Longrightarrow>
   CoolDown tm (cs @ r # rest) =
     Done (map (\<lambda>c. (ThermalWait, waitSec tm (fst (read_chips c)) * Second)) cs, rest)"
proof (induction cs)
  case Nil
  then show ?case
    by (auto simp: CoolDown_Cons reading_def split: prod.splits option.splits)
next
  case (Cons c cs)
  then show ?case
    by (auto simp: CoolDown_Cons reading_def split: prod.splits option.splits)
qed

lemma CoolDown_prefix_of_critical:
  assumes "\<not> useFallback tm" "\<forall>c\<in>set cs. \<exists>t. reading c = Some t \<and> safeTemp tm \<le> t"
  shows "CoolDown tm (take k cs) =
     Pending (map (\<lambda>c. (ThermalWait, waitSec tm (fst (read_chips c)) * Second)) (take k cs), [])"
proof -
  have "\<forall>c\<in>set (take k cs). \<exists>t. reading c = Some t \<and> safeTemp tm \<le> t"
    using assms(2) by (meson in_set_takeD)
  with assms(1) show ?thesis by (rule CoolDown_all_above_safe)
qed

lemma waitSec_above_critical:
  "temp > criticalTemp tm \<Longrightarrow> waitSec tm temp = 5 + (temp - safeTemp tm)"
  by (simp add: waitSec_def)

lemma reading_hot: "reading (hot t) = (if t = 0 then None else Some t)"
  by (simp add: reading_def hot_def read_chips_def)

lemma read_chips_hot: "t \<noteq> 0 \<Longrightarrow> read_chips (hot t) = (t, ''gpu'', None)"
  by (simp add: hot_def read_chips_def)

text \<open>
  C6. Let the monitor read the sensors, with \<open>safeTemp\<close> not above \<open>criticalTemp\<close>. On
  readings that are all at or above \<open>criticalTemp\<close>, followed by one reading below
  \<open>safeTemp\<close>, \<open>CoolDown\<close> returns when it has read the latter and takes no further
  reading; after any number of the earlier readings it has not returned but is waiting
  for the next reading, and it has not returned either while the readings that follow the
  critical ones are in the warning band (at least \<open>safeTemp\<close>, below \<open>criticalTemp\<close>).
\<close>

theorem CoolDown_returns_at_safe_reading:
  assumes "\<not> useFallback tm" and "safeTemp tm \<le> criticalTemp tm"
    and "\<forall>c\<in>set cs. \<exists>t. reading c = Some t \<and> criticalTemp tm \<le> t"
    and "reading r = Some t" and "t < safeTemp tm"
  shows "CoolDown tm (cs @ r # rest) =
           Done (map (\<lambda>c. (ThermalWait, waitSec tm (fst (read_chips c)) * Second)) cs, rest) \<and>
         (\<forall>k. CoolDown tm (take k cs) =
           Pending (map (\<lambda>c. (ThermalWait, waitSec tm (fst (read_chips c)) * Second))
                      (take k cs), [])) \<and>
         (\<forall>ws. (\<forall>w\<in>set ws. \<exists>t. reading w = Some t \<and> safeTemp tm \<le> t \<and> t < criticalTemp tm)
            \<longrightarrow> CoolDown tm (cs @ ws) =
                  Pending (map (\<lambda>c. (ThermalWait, waitSec tm (fst (read_chips c)) * Second))
                             (cs @ ws), []))"
proof -
  let ?w = "\<lambda>c. (ThermalWait, waitSec tm (fst (read_chips c)) * Second)"
  have cs: "\<forall>c\<in>set cs. \<exists>t. reading c = Some t \<and> safeTemp tm \<le> t"
    using assms(2,3) by fastforce
  have 1: "CoolDown tm (cs @ r # rest) = Done (map ?w cs, rest)"
    using assms(1) cs assms(4,5) by (rule CoolDown_until_safe)
  have 2: "\<forall>k. CoolDown tm (take k cs) = Pending (map ?w (take k cs), [])"
    using CoolDown_prefix_of_critical[OF assms(1) cs] by simp
  have 3: "\<forall>ws. (\<forall>w\<in>set ws. \<exists>t. reading w = Some t \<and> safeTemp tm \<le> t \<and> t < criticalTemp tm)
            \<longrightarrow> CoolDown tm (cs @ ws) = Pending (map ?w (cs @ ws), [])"
  proof (intro allI impI)
    fix ws
    assume "\<forall>w\<in>set ws. \<exists>t. reading w = Some t \<and> safeTemp tm \<le> t \<and> t < criticalTemp tm"
    with cs have "\<forall>c\<in>set (cs @ ws). \<exists>t. reading c = Some t \<and> safeTemp tm \<le> t"
      by fastforce
    with assms(1) show "CoolDown tm (cs @ ws) = Pending (map ?w (cs @ ws), [])"
      by (rule CoolDown_all_above_safe)
  qed
  from 1 2 3 show ?thesis by blast
qed

theorem CoolDown_returns_at_safe_reading_witness:
  "CoolDown (NewTemperatureMonitor 80 65 False False) [hot 90, hot 85, hot 60, hot 50] =
     Done ([(ThermalWait, 30 * Second), (ThermalWait, 25 * Second)], [hot 50]) \<and>
   CoolDown (NewTemperatureMonitor 80 65 False False) [hot 90] =
     Pending ([(ThermalWait, 30 * Second)], []) \<and>
   CoolDown (NewTemperatureMonitor 80 65 False False) [hot 90, hot 85, hot 70] =
     Pending ([(ThermalWait, 30 * Second), (ThermalWait, 25 * Second), (ThermalWait, 2 * Second)],
              [])"
proof -
  let ?tm = "NewTemperatureMonitor 80 65 False False"
  let ?w = "\<lambda>c. (ThermalWait, waitSec ?tm (fst (read_chips c)) * Second)"
  have h1: "\<not> useFallback ?tm" and h2: "safeTemp ?tm \<le> criticalTemp ?tm"
    by (simp_all add: NewTemperatureMonitor_def)
  have h3: "\<forall>c\<in>set [hot 90, hot 85]. \<exists>t. reading c = Some t \<and> criticalTemp ?tm \<le> t"
    by (simp add: reading_hot NewTemperatureMonitor_def)
  have h4: "reading (hot 60) = Some 60" and h5: "60 < safeTemp ?tm"
    by (simp_all add: reading_hot NewTemperatureMonitor_def)
  note t = CoolDown_returns_at_safe_reading[OF h1 h2 h3 h4 h5, of "[hot 50]"]
  from t have a: "CoolDown ?tm ([hot 90, hot 85] @ hot 60 # [hot 50]) =
      Done (map ?w [hot 90, hot 85], [hot 50])"
    by (rule conjunct1)
  from t have "\<forall>k. CoolDown ?tm (take k [hot 90, hot 85]) =
      Pending (map ?w (take k [hot 90, hot 85]), [])" by (elim conjE)
  then have "CoolDown ?tm (take 1 [hot 90, hot 85]) =
      Pending (map ?w (take 1 [hot 90, hot 85]), [])" by (rule spec)
  then have b: "CoolDown ?tm [hot 90] = Pending ([(ThermalWait, 30 * Second)], [])"
    by (simp add: read_chips_hot waitSec_def NewTemperatureMonitor_def)
  from t have "\<forall>ws. (\<forall>w\<in>set ws. \<exists>t. reading w = Some t \<and> safeTemp ?tm \<le> t \<and> t < criticalTemp ?tm)
            \<longrightarrow> CoolDown ?tm ([hot 90, hot 85] @ ws) =
                Pending (map ?w ([hot 90, hot 85] @ ws), [])" by (elim conjE)
  then have "(\<forall>w\<in>set [hot 70]. \<exists>t. reading w = Some t \<and> safeTemp ?tm \<le> t \<and> t < criticalTemp ?tm)
            \<longrightarrow> CoolDown ?tm ([hot 90, hot 85] @ [hot 70]) =
                Pending (map ?w ([hot 90, hot 85] @ [hot 70]), [])" by (rule spec)
  then have c: "CoolDown ?tm [hot 90, hot 85, hot 70] =
      Pending ([(ThermalWait, 30 * Second), (ThermalWait, 25 * Second), (ThermalWait, 2 * Second)],
               [])"
    by (simp add: reading_hot read_chips_hot waitSec_def NewTemperatureMonitor_def)
  from a have a': "CoolDown ?tm [hot 90, hot 85, hot 60, hot 50] =
     Done ([(ThermalWait, 30 * Second), (ThermalWait, 25 * Second)], [hot 50])"
    by (simp add: read_chips_hot waitSec_def NewTemperatureMonitor_def)
  from a' b c show ?thesis by blast
qed

text \<open>
  C8. For a reading above \<open>criticalTemp\<close> the wait is \<open>5 + (temp - safeTemp)\<close> seconds
  (\<open>waitSec_above_critical\<close>). A reading equal to \<open>criticalTemp\<close>, which the colouring
  in \<open>CoolDown\<close> and the checks in \<open>indexCodebase\<close> treat as critical (\<open>>=\<close>), gets the
  flat wait of 2 seconds, since the wait is computed under \<open>temp > criticalTemp\<close>: with
  thresholds 80 and 65 and a reading of 80 the sleep is 2 s, not 5 + (80 - 65) = 20 s.
\<close>

theorem CoolDown_wait_at_critical_reading:
  "criticalTemp (NewTemperatureMonitor 80 65 False False) \<le> 80 \<and>
   waitSec (NewTemperatureMonitor 80 65 False False) 80 = 2 \<and>
   5 + (80 - safeTemp (NewTemperatureMonitor 80 65 False False)) = 20 \<and>
   CoolDown (NewTemperatureMonitor 80 65 False False) [hot 80, hot 60] =
     Done ([(ThermalWait, 2 * Second)], [])"
  by (simp add: CoolDown_Cons read_chips_hot waitSec_def NewTemperatureMonitor_def)

subsection \<open>The query path\<close>

lemma searchCodebase_existing_collection:
  assumes "db projectName = Some documents"
  shows "searchCodebase db io projectName query \<noteq> Panic"
  using assms
  by (auto simp: searchCodebase_def Query_def GetCollection_def Let_def
      split: option.splits sum.splits go_result.splits)

lemma searchCodebase_empty_collection:
  assumes "db projectName = Some []"
  shows "\<exists>err. searchCodebase db io projectName query = Returned ([], Some err)"
  using assms
  by (auto simp: searchCodebase_def Query_def GetCollection_def)

text \<open>
  C2. \<open>searchCodebase\<close> passes what \<open>GetCollection\<close> returns to \<open>Query\<close> without
  testing it for \<open>nil\<close>. For a project that has no collection in the vector database
  and a query that is not empty, with the Ollama client available, the call does not
  return an error: it panics on the nil collection.
\<close>

theorem searchCodebase_absent_collection_panics:
  assumes "client_ok io" and "db projectName = None" and "query \<noteq> []"
  shows "searchCodebase db io projectName query = Panic"
  using assms by (simp add: searchCodebase_def Query_def GetCollection_def)

theorem searchCodebase_absent_collection_panics_witness:
  "searchCodebase Map.empty
     \<lparr>client_ok = True, embed_ok = True, ranked = (\<lambda>ds. ds), chat = (\<lambda>p. Some ''ok'')\<rparr>
     ''demo'' ''what does main do'' = Panic"
proof -
  let ?io = "\<lparr>client_ok = True, embed_ok = True, ranked = (\<lambda>ds. ds), chat = (\<lambda>p. Some ''ok'')\<rparr>"
  have h1: "client_ok ?io" by simp
  have h2: "(Map.empty :: string \<rightharpoonup> document list) ''demo'' = None" by simp
  have h3: "''what does main do'' \<noteq> []" by simp
  from searchCodebase_absent_collection_panics[OF h1 h2 h3] show ?thesis .
qed

subsection \<open>The loop over the files\<close>

lemma cooled_refl: "cooled s s []"
  by (simp add: cooled_def)

lemma cooled_trans: "cooled s s1 xs \<Longrightarrow> cooled s1 s2 ys \<Longrightarrow> cooled s s2 (xs @ ys)"
  by (simp add: cooled_def)

lemma cooled_sleep: "k \<noteq> BatchPause \<Longrightarrow> cooled s (sleep k d s) [Sleep k d]"
  by (simp add: cooled_def sleep_def)

lemma cooled_readings: "cooled s (s\<lparr>readings := rs\<rparr>) []"
  by (simp add: cooled_def)

lemma reached_map_outcome: "reached (map_outcome f x) = f (reached x)"
  by (cases x) simp_all


lemma outcome_cases: "x = Done (reached x) \<and> returned x \<or> x = Pending (reached x) \<and> \<not> returned x"
  by (cases x) simp_all

lemma CoolDown_kinds: "\<forall>(k, d)\<in>set (fst (reached (CoolDown tm rs))). k \<noteq> BatchPause"
proof (cases "useFallback tm")
  case True
  then show ?thesis by (simp add: CoolDown_fallback)
next
  case False
  show ?thesis
  proof (induction rs)
    case Nil
    from False show ?case by (simp add: CoolDown_Nil)
  next
    case (Cons r rs)
    obtain sleeps rs' where c: "reached (CoolDown tm rs) = (sleeps, rs')" by fastforce
    with Cons show ?case
      by (auto simp: CoolDown_Cons[OF False] reached_map_outcome
          split: prod.splits option.splits)
  qed
qed


lemma cooled_foldl_sleep:
  "\<forall>(k, d)\<in>set sleeps. k \<noteq> BatchPause \<Longrightarrow>
   cooled s (foldl (\<lambda>s' (k, d). sleep k d s') s sleeps) (map (\<lambda>(k, d). Sleep k d) sleeps)"
proof (induction sleeps arbitrary: s)
  case Nil
  then show ?case by (simp add: cooled_refl)
next
  case (Cons a sleeps)
  obtain k d where a: "a = (k, d)" by (cases a)
  with Cons.prems have k: "k \<noteq> BatchPause" by simp
  have "cooled (sleep k d s) (foldl (\<lambda>s' (k, d). sleep k d s') (sleep k d s) sleeps)
          (map (\<lambda>(k, d). Sleep k d) sleeps)"
    using Cons.prems by (intro Cons.IH) simp
  from cooled_trans[OF cooled_sleep[OF k] this] show ?case by (simp add: a)
qed


lemma runCoolDown_cooled: "\<exists>new. cooled s (reached (runCoolDown tm s)) new"
proof -
  obtain sleeps rs' where c: "reached (CoolDown tm (readings s)) = (sleeps, rs')" by fastforce
  then have s': "reached (runCoolDown tm s)
      = foldl (\<lambda>s' (k, d). sleep k d s') (s\<lparr>readings := rs'\<rparr>) sleeps"
    by (simp add: runCoolDown_def reached_map_outcome)
  from CoolDown_kinds[of tm "readings s"] c have "\<forall>(k, d)\<in>set sleeps. k \<noteq> BatchPause" by simp
  from cooled_trans[OF cooled_readings cooled_foldl_sleep[OF this]] s'
  show ?thesis by auto
qed


lemma thermal_check_cooled: "\<exists>new. cooled s (reached (thermal_check tm s)) new"
proof (cases "getTemperature tm (readings s)")
  case None
  then show ?thesis using cooled_refl by (auto simp: thermal_check_def)
next
  case (Some a)
  obtain temp source err rs' where a: "a = ((temp, source, err), rs')" by (cases a) auto
  show ?thesis
  proof (cases "temp \<ge> criticalTemp tm")
    case True
    with Some a have e: "thermal_check tm s = runCoolDown tm (s\<lparr>readings := rs'\<rparr>)"
      by (simp add: thermal_check_def)
    from runCoolDown_cooled[of "s\<lparr>readings := rs'\<rparr>" tm] obtain new where
      "cooled (s\<lparr>readings := rs'\<rparr>) (reached (runCoolDown tm (s\<lparr>readings := rs'\<rparr>))) new" ..
    from cooled_trans[OF cooled_readings this] e show ?thesis by auto
  next
    case False
    with Some a have "reached (thermal_check tm s) = s\<lparr>readings := rs'\<rparr>"
      by (simp add: thermal_check_def)
    with cooled_readings[of s rs'] show ?thesis by auto
  qed
qed


lemma cooldown_before_file_cooled: "\<exists>new. cooled s (reached (cooldown_before_file tm s)) new"
proof -
  have r: "\<exists>new. cooled x x new" for x using cooled_refl by blast
  have sl: "\<exists>new. cooled x (sleep RemainingCoolDown d x) new" for d x
    using cooled_sleep[of RemainingCoolDown x d] by blast
  show ?thesis
    unfolding cooldown_before_file_def
    by (auto split: option.splits simp: r sl thermal_check_cooled)
qed


lemma cooldown_after_file_cooled: "\<exists>new. cooled s (reached (cooldown_after_file tm t0 s)) new"
proof (cases "useFallback tm \<and> clock s - t0 > maxFileProcessTime
            \<or> clock s - startTotalTime s > maxTotalProcessTime")
  case True
  then have "reached (cooldown_after_file tm t0 s)
      = (sleep FixedCoolDown coolDownPeriod (s\<lparr>lastCoolDown := Some (clock s)\<rparr>))
        \<lparr>startTotalTime := clock (sleep FixedCoolDown coolDownPeriod (s\<lparr>lastCoolDown := Some (clock s)\<rparr>))\<rparr>"
    by (simp add: cooldown_after_file_def Let_def)
  then have "cooled s (reached (cooldown_after_file tm t0 s)) [Sleep FixedCoolDown coolDownPeriod]"
    by (simp add: cooled_def sleep_def)
  then show ?thesis ..
next
  case False
  then have "cooldown_after_file tm t0 s = thermal_check tm s"
    by (auto simp add: cooldown_after_file_def Let_def)
  then show ?thesis by (simp add: thermal_check_cooled)
qed


lemma commit_file_shape:
  assumes "s' = reached (commit_file tm io f h t0 s)"
  shows "\<exists>post. list_all is_cooldown_sleep post \<and>
           trace s' = trace s @ batch_pause (processedFiles s) @ [SetFileHash f h] @ post \<and>
           hashes s' = (if hash_store_ok io then (hashes s)(f \<mapsto> h) else hashes s) \<and>
           docs s' = docs s \<and> vectorDB s' = vectorDB s \<and> storeDir s' = storeDir s \<and>
           processedFiles s' = processedFiles s + 1 \<and>
           failedFiles s' = (if hash_store_ok io then failedFiles s else failedFiles s + 1) \<and>
           updatedFiles s' = updatedFiles s"
proof -
  define s4 where "s4 =
     (let s1 = s\<lparr>processedFiles := processedFiles s + 1\<rparr>;
          s2 = (if processedFiles s1 mod 10 = 0 then sleep BatchPause (10 * Second) s1 else s1);
          s3 = s2\<lparr>trace := trace s2 @ [SetFileHash f h]\<rparr>
      in (if hash_store_ok io then s3\<lparr>hashes := (hashes s3)(f \<mapsto> h)\<rparr>
                else s3\<lparr>failedFiles := failedFiles s3 + 1\<rparr>))"
  have c: "s' = reached (cooldown_after_file tm t0 s4)"
    using assms by (simp add: commit_file_def s4_def Let_def)
  from cooldown_after_file_cooled[of s4 tm t0] c obtain post where p: "cooled s4 s' post" by auto
  have s4: "trace s4 = trace s @ batch_pause (processedFiles s) @ [SetFileHash f h]"
    "hashes s4 = (if hash_store_ok io then (hashes s)(f \<mapsto> h) else hashes s)"
    "docs s4 = docs s" "vectorDB s4 = vectorDB s" "storeDir s4 = storeDir s"
    "processedFiles s4 = processedFiles s + 1"
    "failedFiles s4 = (if hash_store_ok io then failedFiles s else failedFiles s + 1)"
    "updatedFiles s4 = updatedFiles s"
    by (simp_all add: s4_def Let_def sleep_def batch_pause_def)
  from p s4 show ?thesis by (auto simp: cooled_def)
qed


lemma document_file_shape:
  assumes "s' = reached (document_file tm io f r dp h t0 s)"
  shows "updatedFiles s' = updatedFiles s + 1 \<and> vectorDB s' = vectorDB s \<and>
         storeDir s' = storeDir s \<and>
         ((trace s' = trace s \<or> trace s' = trace s @ [GenerateComments f]) \<and>
            hashes s' = hashes s \<and> docs s' = docs s \<and> processedFiles s' = processedFiles s \<and>
            failedFiles s' = failedFiles s + 1 \<and>
            (\<not> mkdir_ok io \<or> source_code io = None \<or> comments io = None \<or> \<not> write_ok io)
          \<or> (\<exists>g post. comments io = Some g \<and> write_ok io \<and> mkdir_ok io \<and>
                source_code io \<noteq> None \<and> list_all is_cooldown_sleep post \<and>
                trace s' = trace s @ [GenerateComments f, WriteDoc f dp] @
                    batch_pause (processedFiles s) @ [SetFileHash f h] @ post \<and>
                hashes s' = (if hash_store_ok io then (hashes s)(f \<mapsto> h) else hashes s) \<and>
                docs s' = AList.update dp (doc_text r g) (docs s) \<and>
                processedFiles s' = processedFiles s + 1 \<and>
                failedFiles s' = (if hash_store_ok io then failedFiles s else failedFiles s + 1)))"
proof (cases "mkdir_ok io \<and> source_code io \<noteq> None \<and> comments io \<noteq> None \<and> write_ok io")
  case False
  with assms show ?thesis
    by (auto simp: document_file_def file_failed_def Let_def split: option.splits if_splits)
next
  case True
  then obtain code g where io: "mkdir_ok io" "source_code io = Some code" "comments io = Some g"
    "write_ok io" by auto
  define s3 where "s3 = s\<lparr>updatedFiles := updatedFiles s + 1,
      trace := trace s @ [GenerateComments f],
      docs := AList.update dp (doc_text r g) (docs s),
      trace := (trace s @ [GenerateComments f]) @ [WriteDoc f dp]\<rparr>"
  have c: "s' = reached (commit_file tm io f h t0 s3)"
    using assms io by (simp add: document_file_def Let_def s3_def)
  from commit_file_shape[OF c] io show ?thesis
    by (auto simp: s3_def)
qed


lemma process_file_before:
  obtains pre where "cooled s (reached (cooldown_before_file tm s)) pre"
  using cooldown_before_file_cooled[of s tm] by blast

lemma process_file_pending_before:
  assumes "cooldown_before_file tm s = Pending s0"
  shows "process_file tm dir w f s = Pending s0"
  using assms by (simp add: process_file_def Let_def)

lemma process_file_skip:
  assumes "cooldown_before_file tm s = Done s0" "\<not> needs_indexing w (hashes s0) f"
  shows "process_file tm dir w f s =
           Done (s0\<lparr>clock := clock s0 + max 0 (work_time (w f)),
                    failedFiles := (if rel_path (w f) \<noteq> None \<and> md5_hash (w f) \<noteq> None \<and>
                                       hash_query_ok (w f)
                                    then failedFiles s0 else failedFiles s0 + 1)\<rparr>)"
  using assms
  by (auto simp: process_file_def needs_indexing_def file_failed_def Let_def split: option.splits)

lemma process_file_document:
  assumes "cooldown_before_file tm s = Done s0" "needs_indexing w (hashes s0) f"
  shows "\<exists>r h. rel_path (w f) = Some r \<and> md5_hash (w f) = Some h \<and> hash_query_ok (w f) \<and>
           hashes s0 f \<noteq> Some h \<and>
           process_file tm dir w f s =
             document_file tm (w f) f r (Join dir (r @ ''.txt'')) h (clock s)
               (s0\<lparr>clock := clock s0 + max 0 (work_time (w f))\<rparr>)"
  using assms
  by (auto simp: process_file_def needs_indexing_def Let_def split: option.splits)


lemma process_file_shape:
  assumes "s' = reached (process_file tm dir w f s)"
  shows "\<exists>pre. list_all is_cooldown_sleep pre \<and> vectorDB s' = vectorDB s \<and>
           storeDir s' = storeDir s \<and>
           (returned (process_file tm dir w f s) \<longrightarrow>
              updatedFiles s' = updatedFiles s + (if needs_indexing w (hashes s) f then 1 else 0)) \<and>
           ((trace s' = trace s @ pre \<or> trace s' = trace s @ pre @ [GenerateComments f]) \<and>
              hashes s' = hashes s \<and> docs s' = docs s \<and> processedFiles s' = processedFiles s
            \<or> (\<exists>r h g post. rel_path (w f) = Some r \<and> md5_hash (w f) = Some h \<and>
                  comments (w f) = Some g \<and> write_ok (w f) \<and>
                  list_all is_cooldown_sleep post \<and>
                  trace s' = trace s @ pre @
                      [GenerateComments f, WriteDoc f (Join dir (r @ ''.txt''))] @
                      batch_pause (processedFiles s) @ [SetFileHash f h] @ post \<and>
                  hashes s' = (if hash_store_ok (w f) then (hashes s)(f \<mapsto> h) else hashes s) \<and>
                  docs s' = AList.update (Join dir (r @ ''.txt'')) (doc_text r g) (docs s) \<and>
                  processedFiles s' = processedFiles s + 1))"
proof -
  obtain pre where c: "cooled s (reached (cooldown_before_file tm s)) pre"
    by (rule process_file_before)
  define s0 where "s0 = reached (cooldown_before_file tm s)"
  from c have c': "trace s0 = trace s @ pre" "list_all is_cooldown_sleep pre"
    "hashes s0 = hashes s" "docs s0 = docs s" "vectorDB s0 = vectorDB s" "storeDir s0 = storeDir s"
    "processedFiles s0 = processedFiles s" "updatedFiles s0 = updatedFiles s"
    by (simp_all add: cooled_def s0_def)
  show ?thesis
  proof (cases "cooldown_before_file tm s")
    case (Pending x)
    then have x: "x = s0" by (simp add: s0_def)
    from process_file_pending_before[OF Pending, of dir w f] assms x
    have "s' = s0" "\<not> returned (process_file tm dir w f s)" by simp_all
    with c' show ?thesis by (intro exI[of _ pre]) simp
  next
    case (Done x)
    then have x: "x = s0" by (simp add: s0_def)
    note b = Done[unfolded x]
    show ?thesis
    proof (cases "needs_indexing w (hashes s0) f")
      case False
      from process_file_skip[OF b False, of dir] assms
      have "s' = s0\<lparr>clock := clock s0 + max 0 (work_time (w f)),
                    failedFiles := (if rel_path (w f) \<noteq> None \<and> md5_hash (w f) \<noteq> None \<and>
                                       hash_query_ok (w f)
                                    then failedFiles s0 else failedFiles s0 + 1)\<rparr>"
        by simp
      with c' False show ?thesis by (intro exI[of _ pre]) simp
    next
      case True
      from process_file_document[OF b True, of dir] assms obtain r h where
        io: "rel_path (w f) = Some r" "md5_hash (w f) = Some h" and
        d: "s' = reached (document_file tm (w f) f r (Join dir (r @ ''.txt'')) h (clock s)
               (s0\<lparr>clock := clock s0 + max 0 (work_time (w f))\<rparr>))"
        by auto
      from document_file_shape[OF d] c' True io show ?thesis
        by (intro exI[of _ pre]) auto
    qed
  qed
qed

lemma caw_mono: "commits_after_writes W es \<Longrightarrow> W \<subseteq> W' \<Longrightarrow> commits_after_writes W' es"
proof (induction W es arbitrary: W' rule: commits_after_writes.induct)
  case (3 W f d es)
  from "3.prems" have "commits_after_writes (insert f W) es" "insert f W \<subseteq> insert f W'"
    by auto
  from "3.IH"[OF this] show ?case by simp
qed auto

lemma caw_append:
  "commits_after_writes W xs \<Longrightarrow> commits_after_writes W ys \<Longrightarrow> commits_after_writes W (xs @ ys)"
proof (induction W xs rule: commits_after_writes.induct)
  case (3 W f d es)
  then show ?case using caw_mono[of W ys "insert f W"] by auto
qed auto

lemma caw_sleeps: "list_all is_cooldown_sleep xs \<Longrightarrow> commits_after_writes W xs"
  by (induction W xs rule: commits_after_writes.induct) auto

lemma caw_documented:
  "list_all is_cooldown_sleep post \<Longrightarrow>
   commits_after_writes W
     ([GenerateComments f, WriteDoc f dp] @ batch_pause n @ [SetFileHash f h] @ post)"
  by (simp add: batch_pause_def caw_sleeps)

lemma bp_sleeps: "list_all is_cooldown_sleep xs \<Longrightarrow> batch_pauses_ok n xs"
  by (induction n xs rule: batch_pauses_ok.induct) auto

lemma bp_append:
  "batch_pauses_ok n xs \<Longrightarrow> batch_pauses_ok (n + count_writes xs) ys \<Longrightarrow>
   batch_pauses_ok n (xs @ ys)"
proof (induction n xs rule: batch_pauses_ok.induct)
  case (2 n f d es)
  then show ?case
    by (auto simp: count_writes_def split: list.splits event.splits sleep_kind.splits if_splits)
qed (auto simp: count_writes_def)

lemma count_writes_sleeps: "list_all is_cooldown_sleep xs \<Longrightarrow> count_writes xs = 0"
  by (induction xs) (auto simp: count_writes_def elim: is_cooldown_sleep.elims)

lemma count_writes_append: "count_writes (xs @ ys) = count_writes xs + count_writes ys"
  by (simp add: count_writes_def)

lemma bp_documented:
  "list_all is_cooldown_sleep post \<Longrightarrow>
   batch_pauses_ok n
     ([GenerateComments f, WriteDoc f dp] @ batch_pause n @ [SetFileHash f h] @ post)"
  by (simp add: batch_pause_def bp_sleeps)

lemma count_writes_documented:
  "list_all is_cooldown_sleep post \<Longrightarrow>
   count_writes ([GenerateComments f, WriteDoc f dp] @ batch_pause n @ [SetFileHash f h] @ post) = 1"
  using count_writes_sleeps[of post]
  by (simp add: count_writes_def batch_pause_def)

lemma no_rebuild_sleeps: "list_all is_cooldown_sleep xs \<Longrightarrow> \<not> list_ex is_rebuild_event xs"
  by (induction xs) (auto elim: is_cooldown_sleep.elims)

lemma artifact_paths_single:
  "rel_path (w f) = Some r \<Longrightarrow> artifact_paths dir w [f] = [Join dir (r @ ''.txt'')]"
  by (simp add: artifact_paths_def)

lemma artifact_paths_Cons:
  "set (artifact_paths dir w (f # fs)) = set (artifact_paths dir w [f]) \<union> set (artifact_paths dir w fs)"
  by (auto simp: artifact_paths_def split: option.splits)

lemma process_file_summary:
  assumes "s' = reached (process_file tm dir w f s)"
  shows "\<exists>new. loop_summary dir w [f] s s' new"
proof -
  from process_file_shape[OF assms] obtain pre where
    pre: "list_all is_cooldown_sleep pre" and v: "vectorDB s' = vectorDB s" "storeDir s' = storeDir s"
    and alt: "(trace s' = trace s @ pre \<or> trace s' = trace s @ pre @ [GenerateComments f]) \<and>
              hashes s' = hashes s \<and> docs s' = docs s \<and> processedFiles s' = processedFiles s
            \<or> (\<exists>r h g post. rel_path (w f) = Some r \<and> md5_hash (w f) = Some h \<and>
                  comments (w f) = Some g \<and> write_ok (w f) \<and>
                  list_all is_cooldown_sleep post \<and>
                  trace s' = trace s @ pre @
                      [GenerateComments f, WriteDoc f (Join dir (r @ ''.txt''))] @
                      batch_pause (processedFiles s) @ [SetFileHash f h] @ post \<and>
                  hashes s' = (if hash_store_ok (w f) then (hashes s)(f \<mapsto> h) else hashes s) \<and>
                  docs s' = AList.update (Join dir (r @ ''.txt'')) (doc_text r g) (docs s) \<and>
                  processedFiles s' = processedFiles s + 1)"
    by blast
  note p = caw_sleeps[OF pre, of "{}"] bp_sleeps[OF pre] count_writes_sleeps[OF pre]
    no_rebuild_sleeps[OF pre]
  from alt show ?thesis
  proof (elim disjE conjE exE)
    assume "trace s' = trace s @ pre" "hashes s' = hashes s" "docs s' = docs s"
      "processedFiles s' = processedFiles s"
    with p v have "loop_summary dir w [f] s s' pre" by (simp add: loop_summary_def)
    then show ?thesis ..
  next
    assume "trace s' = trace s @ pre @ [GenerateComments f]" "hashes s' = hashes s" "docs s' = docs s"
      "processedFiles s' = processedFiles s"
    with p v have "loop_summary dir w [f] s s' (pre @ [GenerateComments f])"
      by (simp add: loop_summary_def caw_append bp_append count_writes_append)
        (simp add: count_writes_def)
    then show ?thesis ..
  next
    fix r h g post
    define mid where "mid = [GenerateComments f, WriteDoc f (Join dir (r @ ''.txt''))] @
                      batch_pause (processedFiles s) @ [SetFileHash f h] @ post"
    assume a: "rel_path (w f) = Some r" "list_all is_cooldown_sleep post"
      "trace s' = trace s @ pre @
          [GenerateComments f, WriteDoc f (Join dir (r @ ''.txt''))] @
          batch_pause (processedFiles s) @ [SetFileHash f h] @ post"
      "hashes s' = (if hash_store_ok (w f) then (hashes s)(f \<mapsto> h) else hashes s)"
      "docs s' = AList.update (Join dir (r @ ''.txt'')) (doc_text r g) (docs s)"
      "processedFiles s' = processedFiles s + 1"
    have m: "commits_after_writes {} mid" "batch_pauses_ok (processedFiles s) mid"
      "count_writes mid = 1"
      unfolding mid_def
      using caw_documented[OF a(2)] bp_documented[OF a(2)] count_writes_documented[OF a(2)]
      by blast+
    have nr: "\<not> list_ex is_rebuild_event mid"
      using no_rebuild_sleeps[OF a(2)] by (simp add: batch_pause_def mid_def)
    have tr: "trace s' = trace s @ pre @ mid" using a(3) by (simp add: mid_def)
    have "loop_summary dir w [f] s s' (pre @ mid)"
      unfolding loop_summary_def
    proof (intro conjI)
      show "trace s' = trace s @ pre @ mid" by (rule tr)
      show "commits_after_writes {} (pre @ mid)" using p(1) m(1) by (rule caw_append)
      have "batch_pauses_ok (processedFiles s + count_writes pre) mid" using m(2) p(3) by simp
      with p(2) show "batch_pauses_ok (processedFiles s) (pre @ mid)" by (rule bp_append)
      show "processedFiles s' = processedFiles s + count_writes (pre @ mid)"
        using a(6) m(3) p(3) by (simp add: count_writes_append)
      show "\<not> list_ex is_rebuild_event (pre @ mid)" using p(4) nr by simp
      show "vectorDB s' = vectorDB s" "storeDir s' = storeDir s" by (rule v)+
      show "\<forall>g. g \<notin> set [f] \<longrightarrow> hashes s' g = hashes s g" using a(4) by simp
      show "\<forall>p. p \<notin> set (artifact_paths dir w [f]) \<longrightarrow> map_of (docs s') p = map_of (docs s) p"
        using a(5) a(1) by (simp add: artifact_paths_single[of w f r dir] update_conv')
    qed
    then show ?thesis ..
  qed
qed

lemma loop_summary_refl: "loop_summary dir w fs s s []"
  by (simp add: loop_summary_def count_writes_def)

lemma loop_summary_Cons:
  assumes "loop_summary dir w [f] s s1 xs" "loop_summary dir w fs s1 s2 ys"
  shows "loop_summary dir w (f # fs) s s2 (xs @ ys)"
  using assms unfolding loop_summary_def
  by (auto simp: caw_append bp_append count_writes_append artifact_paths_Cons[of dir w f fs])

lemma index_files_Cons_Done:
  "process_file tm dir w f s = Done s1 \<Longrightarrow>
   index_files tm dir w (f # fs) s = index_files tm dir w fs s1"
  by simp

lemma index_files_Cons_Pending:
  "process_file tm dir w f s = Pending s1 \<Longrightarrow> index_files tm dir w (f # fs) s = Pending s1"
  by simp

lemma index_files_summary:
  "\<exists>new. loop_summary dir w fs s (reached (index_files tm dir w fs s)) new"
proof (induction fs arbitrary: s)
  case Nil
  then show ?case using loop_summary_refl[of dir w "[]" s] by auto
next
  case (Cons f fs)
  from process_file_summary[OF refl, of dir w f s tm] obtain xs where
    x: "loop_summary dir w [f] s (reached (process_file tm dir w f s)) xs" ..
  show ?case
  proof (cases "process_file tm dir w f s")
    case (Done s1)
    from Cons.IH[of s1] obtain ys where
      y: "loop_summary dir w fs s1 (reached (index_files tm dir w fs s1)) ys" ..
    from x Done have "loop_summary dir w [f] s s1 xs" by simp
    from loop_summary_Cons[OF this y] index_files_Cons_Done[OF Done] show ?thesis by auto
  next
    case (Pending s1)
    from x Pending have "loop_summary dir w [f] s s1 xs" by simp
    from loop_summary_Cons[OF this loop_summary_refl[of dir w fs s1]]
      index_files_Cons_Pending[OF Pending]
    show ?thesis by auto
  qed
qed


lemma needs_indexing_cong:
  "hs f = hs' f \<Longrightarrow> needs_indexing w hs f = needs_indexing w hs' f"
  by (simp add: needs_indexing_def split: option.splits)

lemma process_file_updated:
  assumes "process_file tm dir w f s = Done s'"
  shows "updatedFiles s' = updatedFiles s + (if needs_indexing w (hashes s) f then 1 else 0)"
    and "g \<noteq> f \<Longrightarrow> hashes s' g = hashes s g"
proof -
  from assms have r: "s' = reached (process_file tm dir w f s)"
    "returned (process_file tm dir w f s)" by simp_all
  from process_file_shape[OF r(1)] r(2)
  show "updatedFiles s' = updatedFiles s + (if needs_indexing w (hashes s) f then 1 else 0)"
    by blast
  from process_file_shape[OF r(1)]
  show "g \<noteq> f \<Longrightarrow> hashes s' g = hashes s g" by auto
qed

lemma index_files_updated:
  "index_files tm dir w fs s = Done s' \<Longrightarrow> distinct fs \<Longrightarrow>
   updatedFiles s' = updatedFiles s + length (filter (needs_indexing w (hashes s)) fs)"
proof (induction fs arbitrary: s)
  case Nil
  then show ?case by simp
next
  case (Cons f fs)
  from Cons.prems obtain s1 where 1: "process_file tm dir w f s = Done s1"
    and 2: "index_files tm dir w fs s1 = Done s'"
    by (auto split: outcome.splits)
  have "filter (needs_indexing w (hashes s1)) fs = filter (needs_indexing w (hashes s)) fs"
  proof (rule filter_cong[OF refl])
    fix g assume "g \<in> set fs"
    with Cons.prems(2) have "g \<noteq> f" by auto
    from process_file_updated(2)[OF 1 this]
    show "needs_indexing w (hashes s1) g = needs_indexing w (hashes s) g"
      by (rule needs_indexing_cong)
  qed
  with Cons.IH[OF 2] Cons.prems(2) process_file_updated(1)[OF 1] show ?case by simp
qed





lemma process_file_unchanged:
  assumes "lastCoolDown s = None" "unchanged_file w (hashes s) f"
  shows "process_file tm dir w f s = Done (s\<lparr>clock := clock s + max 0 (work_time (w f))\<rparr>)"
  using assms
  by (auto simp: process_file_def cooldown_before_file_def unchanged_file_def Let_def
      split: option.splits)

lemma index_files_unchanged:
  "lastCoolDown s = None \<Longrightarrow> \<forall>f\<in>set fs. unchanged_file w (hashes s) f \<Longrightarrow>
   index_files tm dir w fs s =
     Done (s\<lparr>clock := clock s + sum_list (map (\<lambda>f. max 0 (work_time (w f))) fs)\<rparr>)"
proof (induction fs arbitrary: s)
  case Nil
  then show ?case by simp
next
  case (Cons f fs)
  let ?s1 = "s\<lparr>clock := clock s + max 0 (work_time (w f))\<rparr>"
  from Cons.prems have 1: "process_file tm dir w f s = Done ?s1"
    by (intro process_file_unchanged) simp_all
  have "index_files tm dir w fs ?s1 =
     Done (?s1\<lparr>clock := clock ?s1 + sum_list (map (\<lambda>f. max 0 (work_time (w f))) fs)\<rparr>)"
    using Cons.prems by (intro Cons.IH) simp_all
  with 1 show ?case by (simp add: add.assoc)
qed

subsection \<open>The loop in fallback mode\<close>

lemma thermal_check_fallback:
  assumes "useFallback tm"
  shows "returned (thermal_check tm s)"
  using assms
  by (simp add: thermal_check_def getTemperature_def runCoolDown_def CoolDown_fallback)

lemma cooldown_after_file_fallback:
  assumes "useFallback tm" "0 < criticalTemp tm"
  shows "cooldown_after_file tm t0 s =
           Done (if clock s - t0 > maxFileProcessTime
                    \<or> clock s - startTotalTime s > maxTotalProcessTime
                 then s\<lparr>lastCoolDown := Some (clock s), clock := clock s + coolDownPeriod,
                        trace := trace s @ [Sleep FixedCoolDown coolDownPeriod],
                        startTotalTime := clock s + coolDownPeriod\<rparr>
                 else s)"
  using assms
  by (simp add: cooldown_after_file_def thermal_check_def getTemperature_def sleep_def Let_def
      coolDownPeriod_def Second_def)

lemma cooldown_before_file_fallback:
  assumes "useFallback tm"
  shows "cooldown_before_file tm s =
           Done (case lastCoolDown s of
                   None \<Rightarrow> s
                 | Some l \<Rightarrow> if clock s - l < coolDownPeriod
                             then sleep RemainingCoolDown (coolDownPeriod - (clock s - l)) s
                             else s)"
  using assms by (simp add: cooldown_before_file_def split: option.splits)

lemma cooled_no_fixed_before:
  assumes "useFallback tm" "cooldown_before_file tm s = Done s0"
  shows "\<exists>pre. trace s0 = trace s @ pre \<and> (\<forall>d. Sleep FixedCoolDown d \<notin> set pre) \<and>
           (\<forall>g p. WriteDoc g p \<notin> set pre) \<and>
           startTotalTime s0 = startTotalTime s \<and> processedFiles s0 = processedFiles s \<and>
           lastCoolDown s0 = lastCoolDown s"
  using assms unfolding cooldown_before_file_fallback[OF assms(1)]
  by (auto simp: sleep_def split: option.splits if_splits)

lemma commit_file_fallback_cases:
  assumes "useFallback tm" "0 < criticalTemp tm" "commit_file tm io f h t0 s = Done s'"
  shows "Sleep FixedCoolDown coolDownPeriod \<in> set (drop (length (trace s)) (trace s')) \<and>
           lastCoolDown s' = Some (clock s' - coolDownPeriod) \<and> startTotalTime s' = clock s' \<and>
           (clock s' - coolDownPeriod - t0 > maxFileProcessTime \<or>
            clock s' - coolDownPeriod - startTotalTime s > maxTotalProcessTime)
         \<or> (\<forall>d. Sleep FixedCoolDown d \<notin> set (drop (length (trace s)) (trace s'))) \<and>
           clock s' - t0 \<le> maxFileProcessTime \<and>
           clock s' - startTotalTime s \<le> maxTotalProcessTime \<and>
           startTotalTime s' = startTotalTime s \<and> lastCoolDown s' = lastCoolDown s"
  using assms(3) unfolding commit_file_def cooldown_after_file_fallback[OF assms(1,2)]
  by (auto simp: Let_def sleep_def split: if_splits)

lemma commit_file_fallback:
  assumes "useFallback tm" "0 < criticalTemp tm" "commit_file tm io f h t0 s = Done s'"
    "Sleep FixedCoolDown d \<in> set (drop (length (trace s)) (trace s'))"
  shows "d = coolDownPeriod \<and>
         lastCoolDown s' = Some (clock s' - coolDownPeriod) \<and> startTotalTime s' = clock s' \<and>
         (clock s' - coolDownPeriod - t0 > maxFileProcessTime \<or>
          clock s' - coolDownPeriod - startTotalTime s > maxTotalProcessTime)"
  using assms(3,4) unfolding commit_file_def cooldown_after_file_fallback[OF assms(1,2)]
  by (auto simp: Let_def sleep_def split: if_splits)

lemma process_file_fallback_returned:
  assumes "useFallback tm"
  shows "returned (process_file tm dir w f s)"
proof -
  have a: "returned (cooldown_after_file tm t0 x)" for t0 x
    using thermal_check_fallback[OF assms] by (simp add: cooldown_after_file_def Let_def)
  show ?thesis
    unfolding process_file_def cooldown_before_file_fallback[OF assms]
    by (simp add: Let_def document_file_def commit_file_def file_failed_def a
        split: option.splits)
qed


lemma process_file_fallback_parts:
  assumes "useFallback tm" "process_file tm dir w f s = Done s'"
  shows "(\<forall>d. Sleep FixedCoolDown d \<notin> set (drop (length (trace s)) (trace s'))) \<and>
         (\<forall>p. WriteDoc f p \<notin> set (drop (length (trace s)) (trace s'))) \<and>
         startTotalTime s' = startTotalTime s \<and> lastCoolDown s' = lastCoolDown s \<and>
         (comments (w f) = None \<or> \<not> write_ok (w f) \<or> \<not> needs_indexing w (hashes s) f \<or>
          \<not> mkdir_ok (w f) \<or> source_code (w f) = None)
       \<or> (\<exists>s3 r h pre. commit_file tm (w f) f h (clock s) s3 = Done s' \<and>
            trace s3 = trace s @ pre @ [GenerateComments f, WriteDoc f (Join dir (r @ ''.txt''))] \<and>
            (\<forall>d. Sleep FixedCoolDown d \<notin> set pre) \<and> (\<forall>g p. WriteDoc g p \<notin> set pre) \<and>
            startTotalTime s3 = startTotalTime s \<and> lastCoolDown s3 = lastCoolDown s \<and>
            comments (w f) \<noteq> None \<and> write_ok (w f))"
proof -
  from assms(2) obtain s0 where b: "cooldown_before_file tm s = Done s0"
    by (auto simp: process_file_def Let_def split: outcome.splits)
  from cooled_no_fixed_before[OF assms(1) b] obtain pre where
    pre: "trace s0 = trace s @ pre" "\<forall>d. Sleep FixedCoolDown d \<notin> set pre"
      "\<forall>g p. WriteDoc g p \<notin> set pre"
      "startTotalTime s0 = startTotalTime s" "lastCoolDown s0 = lastCoolDown s" by blast
  from cooldown_before_file_cooled[of s tm] b have hs: "hashes s0 = hashes s"
    by (auto simp: cooled_def)
  show ?thesis
  proof (cases "needs_indexing w (hashes s0) f \<and> mkdir_ok (w f) \<and> source_code (w f) \<noteq> None \<and>
      comments (w f) \<noteq> None \<and> write_ok (w f)")
    case False
    with assms(2) b have "(trace s' = trace s0 \<or> trace s' = trace s0 @ [GenerateComments f]) \<and>
        startTotalTime s' = startTotalTime s0 \<and> lastCoolDown s' = lastCoolDown s0"
      by (auto simp: process_file_def document_file_def needs_indexing_def file_failed_def Let_def
          split: option.splits if_splits)
    with pre False hs show ?thesis by auto
  next
    case True
    then obtain r h code g where io: "rel_path (w f) = Some r" "md5_hash (w f) = Some h"
      "hash_query_ok (w f)" "hashes s0 f \<noteq> Some h" "mkdir_ok (w f)" "source_code (w f) = Some code"
      "comments (w f) = Some g" "write_ok (w f)"
      by (auto simp: needs_indexing_def split: option.splits)
    define s3 where "s3 = s0\<lparr>clock := clock s0 + max 0 (work_time (w f)),
        updatedFiles := updatedFiles s0 + 1,
        trace := trace s0 @ [GenerateComments f],
        docs := AList.update (Join dir (r @ ''.txt'')) (doc_text r g) (docs s0),
        trace := (trace s0 @ [GenerateComments f]) @ [WriteDoc f (Join dir (r @ ''.txt''))]\<rparr>"
    have c: "commit_file tm (w f) f h (clock s) s3 = Done s'"
      using assms(2) b io by (simp add: process_file_def document_file_def Let_def s3_def)
    have t3: "trace s3 = trace s @ pre @ [GenerateComments f, WriteDoc f (Join dir (r @ ''.txt''))]"
      "startTotalTime s3 = startTotalTime s" "lastCoolDown s3 = lastCoolDown s"
      by (simp_all add: s3_def pre)
    from c t3 pre(2,3) io(7,8) show ?thesis by blast
  qed
qed

lemma process_file_fallback:
  assumes "useFallback tm" "0 < criticalTemp tm" "process_file tm dir w f s = Done s'"
    "Sleep FixedCoolDown d \<in> set (drop (length (trace s)) (trace s'))"
  shows "d = coolDownPeriod \<and>
         (\<exists>p. WriteDoc f p \<in> set (drop (length (trace s)) (trace s'))) \<and>
         comments (w f) \<noteq> None \<and> write_ok (w f) \<and>
         (clock s' - coolDownPeriod - clock s > maxFileProcessTime \<or>
          clock s' - coolDownPeriod - startTotalTime s > maxTotalProcessTime) \<and>
         lastCoolDown s' = Some (clock s' - coolDownPeriod) \<and> startTotalTime s' = clock s'"
proof -
  from process_file_fallback_parts[OF assms(1,3)] assms(4) obtain s3 r h pre where
    c: "commit_file tm (w f) f h (clock s) s3 = Done s'" and
    t3: "trace s3 = trace s @ pre @ [GenerateComments f, WriteDoc f (Join dir (r @ ''.txt''))]" and
    pre: "\<forall>d. Sleep FixedCoolDown d \<notin> set pre" and
    st: "startTotalTime s3 = startTotalTime s" and
    io: "comments (w f) \<noteq> None" "write_ok (w f)"
    by blast
  from commit_file_shape[OF c[THEN arg_cong[of _ _ reached], simplified, symmetric]] obtain post where
    post: "trace s' = trace s3 @ batch_pause (processedFiles s3) @ [SetFileHash f h] @ post"
    by blast
  have "Sleep FixedCoolDown d \<in> set (drop (length (trace s3)) (trace s'))"
    using assms(4) pre unfolding post t3 by (auto simp: batch_pause_def split: if_splits)
  moreover have "WriteDoc f (Join dir (r @ ''.txt'')) \<in> set (drop (length (trace s)) (trace s'))"
    unfolding post t3 by simp
  ultimately show ?thesis
    using commit_file_fallback[OF assms(1,2) c] io st by auto
qed

lemma process_file_fallback_not_written:
  assumes "useFallback tm" "process_file tm dir w f s = Done s'"
    "\<forall>p. WriteDoc f p \<notin> set (drop (length (trace s)) (trace s'))"
  shows "(\<forall>d. Sleep FixedCoolDown d \<notin> set (drop (length (trace s)) (trace s'))) \<and>
         startTotalTime s' = startTotalTime s \<and> lastCoolDown s' = lastCoolDown s"
proof -
  have "\<not> (\<exists>s3 r h pre. commit_file tm (w f) f h (clock s) s3 = Done s' \<and>
            trace s3 = trace s @ pre @ [GenerateComments f, WriteDoc f (Join dir (r @ ''.txt''))])"
  proof
    assume "\<exists>s3 r h pre. commit_file tm (w f) f h (clock s) s3 = Done s' \<and>
            trace s3 = trace s @ pre @ [GenerateComments f, WriteDoc f (Join dir (r @ ''.txt''))]"
    then obtain s3 r h pre where c: "commit_file tm (w f) f h (clock s) s3 = Done s'"
      and t3: "trace s3 = trace s @ pre @ [GenerateComments f, WriteDoc f (Join dir (r @ ''.txt''))]"
      by blast
    from commit_file_shape[OF c[THEN arg_cong[of _ _ reached], simplified, symmetric]]
    obtain post where
      "trace s' = trace s3 @ batch_pause (processedFiles s3) @ [SetFileHash f h] @ post" by blast
    then have "WriteDoc f (Join dir (r @ ''.txt'')) \<in> set (drop (length (trace s)) (trace s'))"
      unfolding t3 by simp
    with assms(3) show False by blast
  qed
  with process_file_fallback_parts[OF assms(1,2)] show ?thesis by blast
qed

lemma process_file_fallback_written:
  assumes "useFallback tm" "0 < criticalTemp tm" "process_file tm dir w f s = Done s'"
    "WriteDoc f p \<in> set (drop (length (trace s)) (trace s'))"
  shows "Sleep FixedCoolDown coolDownPeriod \<in> set (drop (length (trace s)) (trace s')) \<and>
           lastCoolDown s' = Some (clock s' - coolDownPeriod) \<and> startTotalTime s' = clock s' \<and>
           (clock s' - coolDownPeriod - clock s > maxFileProcessTime \<or>
            clock s' - coolDownPeriod - startTotalTime s > maxTotalProcessTime)
         \<or> (\<forall>d. Sleep FixedCoolDown d \<notin> set (drop (length (trace s)) (trace s'))) \<and>
           clock s' - clock s \<le> maxFileProcessTime \<and>
           clock s' - startTotalTime s \<le> maxTotalProcessTime \<and>
           startTotalTime s' = startTotalTime s \<and> lastCoolDown s' = lastCoolDown s"
proof -
  from process_file_fallback_parts[OF assms(1,3)] assms(4) obtain s3 r h pre where
    c: "commit_file tm (w f) f h (clock s) s3 = Done s'" and
    t3: "trace s3 = trace s @ pre @ [GenerateComments f, WriteDoc f (Join dir (r @ ''.txt''))]" and
    pre: "\<forall>d. Sleep FixedCoolDown d \<notin> set pre" and
    st: "startTotalTime s3 = startTotalTime s" "lastCoolDown s3 = lastCoolDown s"
    by blast
  from commit_file_shape[OF c[THEN arg_cong[of _ _ reached], simplified, symmetric]] obtain post where
    post: "trace s' = trace s3 @ batch_pause (processedFiles s3) @ [SetFileHash f h] @ post"
    by blast
  have d3: "drop (length (trace s3)) (trace s')
      = batch_pause (processedFiles s3) @ [SetFileHash f h] @ post"
    by (simp add: post)
  have d: "drop (length (trace s)) (trace s')
      = pre @ [GenerateComments f, WriteDoc f (Join dir (r @ ''.txt''))] @
        batch_pause (processedFiles s3) @ [SetFileHash f h] @ post"
    by (simp add: post t3)
  have m: "Sleep FixedCoolDown x \<in> set (drop (length (trace s)) (trace s')) \<longleftrightarrow>
      Sleep FixedCoolDown x \<in> set (drop (length (trace s3)) (trace s'))" for x
    unfolding d d3 using pre by auto
  from commit_file_fallback_cases[OF assms(1,2) c] show ?thesis
    unfolding m st by blast
qed

subsection \<open>The rebuild and the whole run\<close>

lemma createVectorStore_frame:
  assumes "createVectorStore docsDir sio P codebasePath s = (err, s')"
  shows "trace s' = trace s \<and> hashes s' = hashes s \<and> docs s' = docs s \<and>
         processedFiles s' = processedFiles s \<and> failedFiles s' = failedFiles s \<and>
         updatedFiles s' = updatedFiles s \<and>
         (\<forall>Q. Q \<noteq> P \<longrightarrow> vectorDB s' Q = vectorDB s Q \<and> storeDir s' Q = storeDir s Q)"
  using assms
  by (auto simp: createVectorStore_def Let_def split: if_splits)



lemma rebuild_store_frame:
  assumes "rebuild_store docsDir sio P codebasePath s = (err, s')"
  shows "trace s' = trace s @ rebuild_events sio P (updatedFiles s) \<and>
         hashes s' = hashes s \<and> docs s' = docs s \<and>
         processedFiles s' = processedFiles s \<and> failedFiles s' = failedFiles s \<and>
         updatedFiles s' = updatedFiles s"
proof (cases "updatedFiles s > 0 \<and> reopen_ok sio")
  case False
  with assms show ?thesis
    by (auto simp: rebuild_store_def rebuild_events_def Let_def split: if_splits)
next
  case True
  define s2 where "s2 = s\<lparr>storeDir := (if remove_ok sio then Map.empty else storeDir s),
                     trace := trace s @ [RemoveStore],
                     vectorDB := (if remove_ok sio then Map.empty else storeDir s),
                     trace := (trace s @ [RemoveStore]) @ [CreateVectorStore P]\<rparr>"
  from assms True have "createVectorStore docsDir sio P codebasePath s2 = (err, s')"
    by (simp add: rebuild_store_def Let_def s2_def)
  from createVectorStore_frame[OF this] True show ?thesis
    by (simp add: s2_def rebuild_events_def)
qed

lemma rebuild_store_unchanged:
  assumes "updatedFiles s = 0"
  shows "rebuild_store docsDir sio P codebasePath s = (None, s)"
  using assms by (simp add: rebuild_store_def)



lemma indexCodebase_cases:
  assumes "indexCodebase docsDir isLocalHost sf P cp ex exF tree w sio s = Done (err, s')"
  obtains (traversal) files where
      "parseDirectory cp (ex @ defaultExcludes) exF tree = (files, Some TraversalError)"
      "err = Some TraversalError" "s' = run_start s"
  | (indexed) files s1 where
      "parseDirectory cp (ex @ defaultExcludes) exF tree = (files, None)"
      "index_files (NewTemperatureMonitor 80 65 (\<not> isLocalHost) sf) (Join docsDir P) w files
         (run_start s) = Done s1"
      "rebuild_store docsDir sio P cp s1 = (err, s')"
proof -
  obtain files e where p: "parseDirectory cp (ex @ defaultExcludes) exF tree = (files, e)"
    by fastforce
  show ?thesis
  proof (cases e)
    case None
    from assms p None have
      "(case index_files (NewTemperatureMonitor 80 65 (\<not> isLocalHost) sf) (Join docsDir P) w files
         (run_start s) of Pending s1 \<Rightarrow> Pending (None, s1)
        | Done s1 \<Rightarrow> Done (rebuild_store docsDir sio P cp s1)) = Done (err, s')"
      by (simp add: indexCodebase_def Let_def)
    then obtain s1 where
      "index_files (NewTemperatureMonitor 80 65 (\<not> isLocalHost) sf) (Join docsDir P) w files
         (run_start s) = Done s1" "rebuild_store docsDir sio P cp s1 = (err, s')"
      by (auto split: outcome.splits)
    with p None indexed show ?thesis by blast
  next
    case (Some a)
    have "a = TraversalError"
      using p Some by (auto simp: parseDirectory_def split: prod.splits walk_result.splits)
    moreover from assms p Some have "err = Some a \<and> s' = run_start s"
      by (simp add: indexCodebase_def Let_def)
    ultimately show ?thesis using p Some traversal by blast
  qed
qed


subsection \<open>Runs of \<open>indexCodebase\<close>\<close>

lemma run_start_simps:
  "trace (run_start s) = trace s" "hashes (run_start s) = hashes s" "docs (run_start s) = docs s"
  "vectorDB (run_start s) = vectorDB s" "storeDir (run_start s) = storeDir s"
  "updatedFiles (run_start s) = 0" "processedFiles (run_start s) = 0"
  "failedFiles (run_start s) = 0" "lastCoolDown (run_start s) = None"
  "readings (run_start s) = readings s" "clock (run_start s) = clock s"
  by (simp_all add: run_start_def)

lemma count_no_rebuild:
  "\<not> list_ex is_rebuild_event xs \<Longrightarrow>
   count_list xs RemoveStore = 0 \<and> count_list xs (CreateVectorStore Q) = 0"
  by (induction xs) auto

lemma count_rebuild_events:
  "count_list (rebuild_events sio P n) RemoveStore = (if n > 0 then 1 else 0)"
  "count_list (rebuild_events sio P n) (CreateVectorStore Q) =
     (if Q = P \<and> n > 0 \<and> reopen_ok sio then 1 else 0)"
  by (auto simp: rebuild_events_def)

lemma indexed_run_trace:
  assumes "s1 = reached (index_files tm dir w files (run_start s))"
    and "rebuild_store docsDir sio P cp s1 = (err, s')"
  obtains new where "loop_summary dir w files (run_start s) s1 new"
    "drop (length (trace s)) (trace s') = new @ rebuild_events sio P (updatedFiles s1)"
    "updatedFiles s' = updatedFiles s1" "hashes s' = hashes s1" "docs s' = docs s1"
    "processedFiles s' = processedFiles s1"
proof -
  from index_files_summary[of dir w files "run_start s" tm] assms(1) obtain new where
    n: "loop_summary dir w files (run_start s) s1 new" by auto
  then have t: "trace s1 = trace s @ new" by (simp add: loop_summary_def run_start_simps)
  from rebuild_store_frame[OF assms(2)] t
  have "drop (length (trace s)) (trace s') = new @ rebuild_events sio P (updatedFiles s1)"
    "updatedFiles s' = updatedFiles s1" "hashes s' = hashes s1" "docs s' = docs s1"
    "processedFiles s' = processedFiles s1"
    by simp_all
  with n that show ?thesis by blast
qed



lemma demo_files: "parseDirectory ''/p'' defaultExcludes [] demo_tree = ([''/p/login.go''], None)"
  by (simp add: demo_tree_def parseDirectory_def walkFn_def Join_def Clean_def clean_step_def
      Base_def Ext_def source_extensions_def defaultExcludes_def)

lemmas run_defs = indexCodebase_def run_start_def NewTemperatureMonitor_def process_file_def
  cooldown_before_file_def document_file_def commit_file_def cooldown_after_file_def
  thermal_check_def getTemperature_def sleep_def file_failed_def rebuild_store_def
  createVectorStore_def artifact_document_def project_artifacts_def walk_order_def below_def
  TrimPrefix_def TrimSuffix_def doc_text_def
  maxFileProcessTime_def maxTotalProcessTime_def coolDownPeriod_def Second_def Minute_def
  Join_def Clean_def clean_step_def Let_def suffix_to_prefix

lemmas demo_defs = demo_run_def demo_world_def demo_io_def demo_store_def demo_state_def
  fallback_monitor_def failing_world_def slow_world_def slow_failing_world_def sensor_monitor_def

lemma demo_run_reopened:
  "\<exists>s'. demo_run True demo_state = Done (None, s') \<and>
        trace s' = [GenerateComments ''/p/login.go'',
                    WriteDoc ''/p/login.go'' ''docs/demo/login.go.txt'',
                    SetFileHash ''/p/login.go'' ''h1'', RemoveStore, CreateVectorStore ''demo''] \<and>
        updatedFiles s' = 1 \<and> processedFiles s' = 1 \<and> vectorDB s' ''other'' = None \<and>
        storeDir s' ''other'' = None \<and>
        vectorDB s' ''demo'' =
          Some [\<lparr>doc_id = ''login.go'', doc_content = doc_text ''login.go'' ''Package main.'',
                 doc_file_path = ''/p/login.go''\<rparr>] \<and>
        hashes s' ''/p/login.go'' = Some ''h1''"
proof -
  have "case demo_run True demo_state of
     Pending x \<Rightarrow> False
   | Done (err, s') \<Rightarrow>
        err = None \<and>
        trace s' = [GenerateComments ''/p/login.go'',
                    WriteDoc ''/p/login.go'' ''docs/demo/login.go.txt'',
                    SetFileHash ''/p/login.go'' ''h1'', RemoveStore, CreateVectorStore ''demo''] \<and>
        updatedFiles s' = 1 \<and> processedFiles s' = 1 \<and> vectorDB s' ''other'' = None \<and>
        storeDir s' ''other'' = None \<and>
        vectorDB s' ''demo'' =
          Some [\<lparr>doc_id = ''login.go'', doc_content = doc_text ''login.go'' ''Package main.'',
                 doc_file_path = ''/p/login.go''\<rparr>] \<and>
        hashes s' ''/p/login.go'' = Some ''h1''"
    by (simp add: demo_files run_defs demo_defs)
  then show ?thesis by (auto split: outcome.splits)
qed

lemma demo_run_not_reopened:
  "\<exists>s'. demo_run False demo_state = Done (Some StoreOpenError, s') \<and>
        trace s' = [GenerateComments ''/p/login.go'',
                    WriteDoc ''/p/login.go'' ''docs/demo/login.go.txt'',
                    SetFileHash ''/p/login.go'' ''h1'', RemoveStore] \<and>
        updatedFiles s' = 1"
proof -
  have "case demo_run False demo_state of
     Pending x \<Rightarrow> False
   | Done (err, s') \<Rightarrow>
        err = Some StoreOpenError \<and>
        trace s' = [GenerateComments ''/p/login.go'',
                    WriteDoc ''/p/login.go'' ''docs/demo/login.go.txt'',
                    SetFileHash ''/p/login.go'' ''h1'', RemoveStore] \<and>
        updatedFiles s' = 1"
    by (simp add: demo_files run_defs demo_defs)
  then show ?thesis by (auto split: outcome.splits)
qed


text \<open>
  C1. In a run of \<open>indexCodebase\<close> that returns, the directory of the vector store is
  removed exactly once when \<open>updatedFiles\<close> is positive and not at all otherwise;
  \<open>createVectorStore\<close> is called, once and for the project being indexed, exactly when
  \<open>updatedFiles\<close> is positive and the store is opened again after the removal, and for no
  other project. When the discovery succeeds and lists no file twice, \<open>updatedFiles\<close> is
  the number of discovered files found new or modified against the hashes stored at the
  start; when the discovery fails it is 0.
\<close>

theorem rebuild_iff_updated:
  assumes "indexCodebase docsDir isLocalHost sf P cp ex exF tree w sio s = Done (err, s')"
  shows "count_list (drop (length (trace s)) (trace s')) RemoveStore
           = (if updatedFiles s' > 0 then 1 else 0) \<and>
         (\<forall>Q. count_list (drop (length (trace s)) (trace s')) (CreateVectorStore Q)
           = (if Q = P \<and> updatedFiles s' > 0 \<and> reopen_ok sio then 1 else 0)) \<and>
         (\<forall>files. parseDirectory cp (ex @ defaultExcludes) exF tree = (files, None) \<and>
              distinct files \<longrightarrow>
              updatedFiles s' = length (filter (needs_indexing w (hashes s)) files)) \<and>
         (\<forall>files e. parseDirectory cp (ex @ defaultExcludes) exF tree = (files, Some e) \<longrightarrow>
              updatedFiles s' = 0)"
  using assms
proof (cases rule: indexCodebase_cases)
  case (traversal files)
  then show ?thesis by (simp add: run_start_simps)
next
  case (indexed files s1)
  from indexed(2) have r: "s1 = reached (index_files (NewTemperatureMonitor 80 65 (\<not> isLocalHost) sf)
      (Join docsDir P) w files (run_start s))" by simp
  from r indexed(3) obtain new where
    n: "loop_summary (Join docsDir P) w files (run_start s) s1 new"
      "drop (length (trace s)) (trace s') = new @ rebuild_events sio P (updatedFiles s1)"
      "updatedFiles s' = updatedFiles s1"
    by (rule indexed_run_trace)
  from n(1) have nr: "\<not> list_ex is_rebuild_event new" by (simp add: loop_summary_def)
  have u: "distinct files \<Longrightarrow>
      updatedFiles s1 = length (filter (needs_indexing w (hashes s)) files)"
    using index_files_updated[OF indexed(2)] by (simp add: run_start_simps)
  show ?thesis
    using count_no_rebuild[OF nr] indexed(1) u
    by (simp add: n(2,3) count_rebuild_events)
qed

theorem rebuild_iff_updated_witness:
  "returned (demo_run True demo_state) \<and>
   updatedFiles (snd (reached (demo_run True demo_state))) = 1 \<and>
   count_list (trace (snd (reached (demo_run True demo_state)))) RemoveStore = 1 \<and>
   count_list (trace (snd (reached (demo_run True demo_state)))) (CreateVectorStore ''demo'') = 1 \<and>
   length (filter (needs_indexing demo_world (hashes demo_state)) [''/p/login.go'']) = 1 \<and>
   indexCodebase ''docs'' False False ''demo'' ''/p'' [] [] Broken demo_world (demo_store True)
     demo_state = Done (Some TraversalError, run_start demo_state) \<and>
   updatedFiles (run_start demo_state) = 0"
proof -
  have b: "parseDirectory ''/p'' ([] @ defaultExcludes) [] Broken = ([], Some TraversalError)"
    by (simp add: parseDirectory_def walkFn_def)
  then have rb: "indexCodebase ''docs'' False False ''demo'' ''/p'' [] [] Broken demo_world
      (demo_store True) demo_state = Done (Some TraversalError, run_start demo_state)"
    by (simp add: indexCodebase_def Let_def)
  from rebuild_iff_updated[OF rb] have
    "\<forall>files e. parseDirectory ''/p'' ([] @ defaultExcludes) [] Broken = (files, Some e) \<longrightarrow>
       updatedFiles (run_start demo_state) = 0" by (elim conjE)
  with b have 4: "updatedFiles (run_start demo_state) = 0" by blast
  from demo_run_reopened obtain s' where
    r: "demo_run True demo_state = Done (None, s')" and u: "updatedFiles s' = 1" by blast
  note t = rebuild_iff_updated[OF r[unfolded demo_run_def]]
  have d: "drop (length (trace demo_state)) (trace s') = trace s'" by (simp add: demo_state_def)
  from t have "count_list (drop (length (trace demo_state)) (trace s')) RemoveStore
           = (if updatedFiles s' > 0 then 1 else 0)" by (rule conjunct1)
  then have 1: "count_list (trace s') RemoveStore = 1" by (simp add: d u)
  from t have "\<forall>Q. count_list (drop (length (trace demo_state)) (trace s')) (CreateVectorStore Q)
           = (if Q = ''demo'' \<and> updatedFiles s' > 0 \<and> reopen_ok (demo_store True) then 1 else 0)"
    by (elim conjE)
  then have "count_list (drop (length (trace demo_state)) (trace s')) (CreateVectorStore ''demo'')
           = (if ''demo'' = ''demo'' \<and> updatedFiles s' > 0 \<and> reopen_ok (demo_store True) then 1 else 0)"
    by (rule spec)
  then have 2: "count_list (trace s') (CreateVectorStore ''demo'') = 1"
    by (simp add: d u demo_store_def)
  from t have "\<forall>files. parseDirectory ''/p'' ([] @ defaultExcludes) [] demo_tree = (files, None) \<and>
              distinct files \<longrightarrow>
              updatedFiles s' = length (filter (needs_indexing demo_world (hashes demo_state)) files)"
    by (elim conjE)
  then have "parseDirectory ''/p'' ([] @ defaultExcludes) [] demo_tree = ([''/p/login.go''], None) \<and>
              distinct [''/p/login.go''] \<longrightarrow>
              updatedFiles s' = length (filter (needs_indexing demo_world (hashes demo_state))
                [''/p/login.go''])"
    by (rule spec)
  then have 3: "length (filter (needs_indexing demo_world (hashes demo_state)) [''/p/login.go'']) = 1"
    using u by (simp add: demo_files)
  from r u 1 2 3 have "returned (demo_run True demo_state) \<and>
   updatedFiles (snd (reached (demo_run True demo_state))) = 1 \<and>
   count_list (trace (snd (reached (demo_run True demo_state)))) RemoveStore = 1 \<and>
   count_list (trace (snd (reached (demo_run True demo_state)))) (CreateVectorStore ''demo'') = 1 \<and>
   length (filter (needs_indexing demo_world (hashes demo_state)) [''/p/login.go'']) = 1"
    by simp
  with rb 4 show ?thesis by blast
qed

text \<open>
  With one new file and a store that cannot be opened again after its removal,
  \<open>updatedFiles\<close> is 1, the store's directory has been removed, the run returns the
  error, and \<open>createVectorStore\<close> has not been called.
\<close>

theorem rebuild_iff_updated_counterexample:
  "returned (demo_run False demo_state) \<and>
   updatedFiles (snd (reached (demo_run False demo_state))) = 1 \<and>
   trace (snd (reached (demo_run False demo_state))) =
     [GenerateComments ''/p/login.go'',
      WriteDoc ''/p/login.go'' ''docs/demo/login.go.txt'',
      SetFileHash ''/p/login.go'' ''h1'', RemoveStore] \<and>
   fst (reached (demo_run False demo_state)) = Some StoreOpenError"
  using demo_run_not_reopened by auto

text \<open>
  C5. When every discovered file has a path relative to the root, a hash and a stored
  hash read without error, and the two hashes are equal, \<open>indexCodebase\<close> returns, with
  the trace as it was (no call of \<open>generateComments\<close> or \<open>setFileHash\<close>, no artifact
  written, no removal of the store, no call of \<open>createVectorStore\<close>), and with the hash
  table, the artifacts, the vector database and its directory unchanged.
\<close>

theorem unchanged_tree_is_noop:
  assumes "\<forall>f\<in>set (fst (parseDirectory cp (ex @ defaultExcludes) exF tree)).
             unchanged_file w (hashes s) f"
  shows "\<exists>err s'. indexCodebase docsDir isLocalHost sf P cp ex exF tree w sio s = Done (err, s') \<and>
           trace s' = trace s \<and> hashes s' = hashes s \<and> docs s' = docs s \<and>
           vectorDB s' = vectorDB s \<and> storeDir s' = storeDir s \<and> readings s' = readings s \<and>
           updatedFiles s' = 0 \<and> processedFiles s' = 0 \<and> failedFiles s' = 0"
proof -
  obtain files e where p: "parseDirectory cp (ex @ defaultExcludes) exF tree = (files, e)"
    by fastforce
  show ?thesis
  proof (cases e)
    case (Some a)
    with p have "indexCodebase docsDir isLocalHost sf P cp ex exF tree w sio s
        = Done (Some a, run_start s)"
      by (simp add: indexCodebase_def Let_def)
    then show ?thesis by (simp add: run_start_simps)
  next
    case None
    let ?tm = "NewTemperatureMonitor 80 65 (\<not> isLocalHost) sf"
    let ?s1 = "(run_start s)\<lparr>clock := clock (run_start s) +
        sum_list (map (\<lambda>f. max 0 (work_time (w f))) files)\<rparr>"
    have "index_files ?tm (Join docsDir P) w files (run_start s) = Done ?s1"
      using assms p by (intro index_files_unchanged) (simp_all add: run_start_simps)
    moreover have "rebuild_store docsDir sio P cp ?s1 = (None, ?s1)"
      by (intro rebuild_store_unchanged) (simp add: run_start_simps)
    ultimately have "indexCodebase docsDir isLocalHost sf P cp ex exF tree w sio s
        = Done (None, ?s1)"
      using p None by (simp add: indexCodebase_def Let_def)
    then show ?thesis by (simp add: run_start_simps)
  qed
qed

theorem unchanged_tree_is_noop_witness:
  "\<exists>err s'. demo_run True (demo_state\<lparr>hashes := [''/p/login.go'' \<mapsto> ''h1'']\<rparr>) = Done (err, s') \<and>
      trace s' = [] \<and> updatedFiles s' = 0 \<and> vectorDB s' ''other'' = Some [other_document] \<and>
      hashes s' ''/p/login.go'' = Some ''h1''"
proof -
  let ?s = "demo_state\<lparr>hashes := [''/p/login.go'' \<mapsto> ''h1'']\<rparr>"
  have h: "\<forall>f\<in>set (fst (parseDirectory ''/p'' ([] @ defaultExcludes) [] demo_tree)).
             unchanged_file demo_world (hashes ?s) f"
    by (simp add: demo_files unchanged_file_def demo_world_def demo_io_def)
  from unchanged_tree_is_noop[OF h, of "''docs''" False False "''demo''" "demo_store True"]
  obtain err s' where
    r: "indexCodebase ''docs'' False False ''demo'' ''/p'' [] [] demo_tree demo_world
          (demo_store True) ?s = Done (err, s')"
    and f: "trace s' = trace ?s" "hashes s' = hashes ?s" "vectorDB s' = vectorDB ?s"
      "updatedFiles s' = 0"
    by blast
  from r f show ?thesis by (simp add: demo_run_def demo_state_def)
qed



lemma demo_slow_file:
  "\<exists>s'. process_file fallback_monitor ''docs/demo'' slow_world ''/p/login.go'' demo_state
          = Done s' \<and>
        trace s' = [GenerateComments ''/p/login.go'',
           WriteDoc ''/p/login.go'' ''docs/demo/login.go.txt'',
           SetFileHash ''/p/login.go'' ''h1'', Sleep FixedCoolDown (60 * Second)] \<and>
        clock s' = 100 * Second"
proof -
  have "case process_file fallback_monitor ''docs/demo'' slow_world ''/p/login.go'' demo_state of
      Pending x \<Rightarrow> False
    | Done s' \<Rightarrow> trace s' = [GenerateComments ''/p/login.go'',
           WriteDoc ''/p/login.go'' ''docs/demo/login.go.txt'',
           SetFileHash ''/p/login.go'' ''h1'', Sleep FixedCoolDown (60 * Second)] \<and>
         clock s' = 100 * Second"
    by (simp add: run_defs demo_defs)
  then show ?thesis by (auto split: outcome.splits)
qed

lemma demo_quick_file:
  "\<exists>s'. process_file fallback_monitor ''docs/demo'' demo_world ''/p/login.go'' demo_state
          = Done s' \<and>
        trace s' = [GenerateComments ''/p/login.go'',
           WriteDoc ''/p/login.go'' ''docs/demo/login.go.txt'',
           SetFileHash ''/p/login.go'' ''h1''] \<and>
        clock s' = Second"
proof -
  have "case process_file fallback_monitor ''docs/demo'' demo_world ''/p/login.go'' demo_state of
      Pending x \<Rightarrow> False
    | Done s' \<Rightarrow> trace s' = [GenerateComments ''/p/login.go'',
           WriteDoc ''/p/login.go'' ''docs/demo/login.go.txt'',
           SetFileHash ''/p/login.go'' ''h1''] \<and>
         clock s' = Second"
    by (simp add: run_defs demo_defs)
  then show ?thesis by (auto split: outcome.splits)
qed

lemma demo_slow_failing_file:
  "\<exists>s'. process_file fallback_monitor ''docs/demo'' slow_failing_world ''/p/login.go'' demo_state
          = Done s' \<and>
        trace s' = [GenerateComments ''/p/login.go''] \<and> clock s' = 400 * Second \<and>
        startTotalTime s' = 0 \<and> lastCoolDown s' = None \<and> failedFiles s' = 1"
proof -
  have "case process_file fallback_monitor ''docs/demo'' slow_failing_world ''/p/login.go''
           demo_state of
      Pending x \<Rightarrow> False
    | Done s' \<Rightarrow> trace s' = [GenerateComments ''/p/login.go''] \<and> clock s' = 400 * Second \<and>
        startTotalTime s' = 0 \<and> lastCoolDown s' = None \<and> failedFiles s' = 1"
    by (simp add: run_defs demo_defs)
  then show ?thesis by (auto split: outcome.splits)
qed

text \<open>
  C7. For the monitor of a run in fallback mode, the check after a file sleeps
  \<open>coolDownPeriod\<close> exactly when the time on the file exceeds \<open>maxFileProcessTime\<close> or the
  time since \<open>startTotalTime\<close> exceeds \<open>maxTotalProcessTime\<close>; it then sets
  \<open>lastCoolDown\<close> to the time before the sleep and \<open>startTotalTime\<close> to the time after
  it, and otherwise changes nothing. The sensor readings play no part, and every
  iteration of the loop returns. The check is made only at the end of an iteration that
  has written the artifact of its file: such an iteration makes the sleep and resets the
  two times when one of the limits is exceeded, and ends with both elapsed times within
  their limits otherwise; an iteration that ends before (the file unchanged, or a step
  on it failed) makes no such sleep and resets neither time, however long it took.
\<close>

theorem fallback_fixed_cooldown:
  assumes "tm = NewTemperatureMonitor 80 65 isNotLocal sensorsFailed" and "useFallback tm"
  shows "cooldown_after_file tm t0 s =
           Done (if clock s - t0 > maxFileProcessTime
                    \<or> clock s - startTotalTime s > maxTotalProcessTime
                 then s\<lparr>lastCoolDown := Some (clock s), clock := clock s + coolDownPeriod,
                        trace := trace s @ [Sleep FixedCoolDown coolDownPeriod],
                        startTotalTime := clock s + coolDownPeriod\<rparr>
                 else s) \<and>
         (\<forall>rs. cooldown_after_file tm t0 (s\<lparr>readings := rs\<rparr>)
                 = map_outcome (\<lambda>x. x\<lparr>readings := rs\<rparr>) (cooldown_after_file tm t0 s)) \<and>
         (\<forall>dir w f. returned (process_file tm dir w f s)) \<and>
         (\<forall>dir w f s' d. process_file tm dir w f s = Done s' \<and>
              Sleep FixedCoolDown d \<in> set (drop (length (trace s)) (trace s')) \<longrightarrow>
              d = coolDownPeriod \<and>
              (\<exists>p. WriteDoc f p \<in> set (drop (length (trace s)) (trace s'))) \<and>
              comments (w f) \<noteq> None \<and> write_ok (w f) \<and>
              (clock s' - coolDownPeriod - clock s > maxFileProcessTime \<or>
               clock s' - coolDownPeriod - startTotalTime s > maxTotalProcessTime) \<and>
              lastCoolDown s' = Some (clock s' - coolDownPeriod) \<and>
              startTotalTime s' = clock s') \<and>
         (\<forall>dir w f s' p. process_file tm dir w f s = Done s' \<and>
              WriteDoc f p \<in> set (drop (length (trace s)) (trace s')) \<and>
              (\<forall>d. Sleep FixedCoolDown d \<notin> set (drop (length (trace s)) (trace s'))) \<longrightarrow>
              clock s' - clock s \<le> maxFileProcessTime \<and>
              clock s' - startTotalTime s \<le> maxTotalProcessTime \<and>
              startTotalTime s' = startTotalTime s \<and> lastCoolDown s' = lastCoolDown s) \<and>
         (\<forall>dir w f s'. process_file tm dir w f s = Done s' \<and>
              (\<forall>p. WriteDoc f p \<notin> set (drop (length (trace s)) (trace s'))) \<longrightarrow>
              (\<forall>d. Sleep FixedCoolDown d \<notin> set (drop (length (trace s)) (trace s'))) \<and>
              startTotalTime s' = startTotalTime s \<and> lastCoolDown s' = lastCoolDown s)"
proof -
  have c: "0 < criticalTemp tm" using assms(1) by (simp add: NewTemperatureMonitor_def)
  note a = cooldown_after_file_fallback[OF assms(2) c]
  have 1: "cooldown_after_file tm t0 s =
           Done (if clock s - t0 > maxFileProcessTime
                    \<or> clock s - startTotalTime s > maxTotalProcessTime
                 then s\<lparr>lastCoolDown := Some (clock s), clock := clock s + coolDownPeriod,
                        trace := trace s @ [Sleep FixedCoolDown coolDownPeriod],
                        startTotalTime := clock s + coolDownPeriod\<rparr>
                 else s)" by (rule a)
  have 2: "\<forall>rs. cooldown_after_file tm t0 (s\<lparr>readings := rs\<rparr>)
                 = map_outcome (\<lambda>x. x\<lparr>readings := rs\<rparr>) (cooldown_after_file tm t0 s)"
    by (simp add: a)
  have 3: "\<forall>dir w f. returned (process_file tm dir w f s)"
    using process_file_fallback_returned[OF assms(2)] by blast
  have 4: "\<forall>dir w f s' d. process_file tm dir w f s = Done s' \<and>
              Sleep FixedCoolDown d \<in> set (drop (length (trace s)) (trace s')) \<longrightarrow>
              d = coolDownPeriod \<and>
              (\<exists>p. WriteDoc f p \<in> set (drop (length (trace s)) (trace s'))) \<and>
              comments (w f) \<noteq> None \<and> write_ok (w f) \<and>
              (clock s' - coolDownPeriod - clock s > maxFileProcessTime \<or>
               clock s' - coolDownPeriod - startTotalTime s > maxTotalProcessTime) \<and>
              lastCoolDown s' = Some (clock s' - coolDownPeriod) \<and>
              startTotalTime s' = clock s'"
    using process_file_fallback[OF assms(2) c] by blast
  have 5: "\<forall>dir w f s' p. process_file tm dir w f s = Done s' \<and>
              WriteDoc f p \<in> set (drop (length (trace s)) (trace s')) \<and>
              (\<forall>d. Sleep FixedCoolDown d \<notin> set (drop (length (trace s)) (trace s'))) \<longrightarrow>
              clock s' - clock s \<le> maxFileProcessTime \<and>
              clock s' - startTotalTime s \<le> maxTotalProcessTime \<and>
              startTotalTime s' = startTotalTime s \<and> lastCoolDown s' = lastCoolDown s"
    using process_file_fallback_written[OF assms(2) c] by blast
  have 6: "\<forall>dir w f s'. process_file tm dir w f s = Done s' \<and>
              (\<forall>p. WriteDoc f p \<notin> set (drop (length (trace s)) (trace s'))) \<longrightarrow>
              (\<forall>d. Sleep FixedCoolDown d \<notin> set (drop (length (trace s)) (trace s'))) \<and>
              startTotalTime s' = startTotalTime s \<and> lastCoolDown s' = lastCoolDown s"
    using process_file_fallback_not_written[OF assms(2)] by blast
  from 1 2 3 4 5 6 show ?thesis by blast
qed

theorem fallback_fixed_cooldown_witness:
  "trace (reached (cooldown_after_file fallback_monitor (390 * Second)
       (demo_state\<lparr>clock := 400 * Second\<rparr>))) = [Sleep FixedCoolDown (60 * Second)] \<and>
   startTotalTime (reached (cooldown_after_file fallback_monitor (390 * Second)
       (demo_state\<lparr>clock := 400 * Second\<rparr>))) = 460 * Second \<and>
   lastCoolDown (reached (cooldown_after_file fallback_monitor (390 * Second)
       (demo_state\<lparr>clock := 400 * Second\<rparr>))) = Some (400 * Second) \<and>
   trace (reached (cooldown_after_file fallback_monitor (5 * Second)
       (demo_state\<lparr>clock := 45 * Second\<rparr>))) = [Sleep FixedCoolDown (60 * Second)] \<and>
   trace (reached (cooldown_after_file fallback_monitor 0
       (demo_state\<lparr>clock := 10 * Second\<rparr>))) = [] \<and>
   returned (process_file fallback_monitor ''docs/demo'' slow_world ''/p/login.go'' demo_state) \<and>
   trace (reached (process_file fallback_monitor ''docs/demo'' slow_world ''/p/login.go''
       demo_state)) =
     [GenerateComments ''/p/login.go'',
      WriteDoc ''/p/login.go'' ''docs/demo/login.go.txt'',
      SetFileHash ''/p/login.go'' ''h1'', Sleep FixedCoolDown (60 * Second)] \<and>
   clock (reached (process_file fallback_monitor ''docs/demo'' slow_world ''/p/login.go''
       demo_state)) = 100 * Second \<and>
   startTotalTime (reached (process_file fallback_monitor ''docs/demo'' slow_world
       ''/p/login.go'' demo_state)) = 100 * Second \<and>
   write_ok (slow_world ''/p/login.go'') \<and>
   clock (reached (process_file fallback_monitor ''docs/demo'' demo_world ''/p/login.go''
       demo_state)) - clock demo_state \<le> maxFileProcessTime \<and>
   startTotalTime (reached (process_file fallback_monitor ''docs/demo'' slow_failing_world
       ''/p/login.go'' demo_state)) = startTotalTime demo_state"
proof -
  have h1: "fallback_monitor = NewTemperatureMonitor 80 65 True False"
    by (simp add: fallback_monitor_def)
  have h2: "useFallback fallback_monitor"
    by (simp add: fallback_monitor_def NewTemperatureMonitor_def)
  note t = fallback_fixed_cooldown[OF h1 h2, THEN conjunct1]
  note u = fallback_fixed_cooldown[OF h1 h2, of _ demo_state, THEN conjunct2, THEN conjunct2]
  have a: "trace (reached (cooldown_after_file fallback_monitor (390 * Second)
       (demo_state\<lparr>clock := 400 * Second\<rparr>))) = [Sleep FixedCoolDown (60 * Second)] \<and>
   startTotalTime (reached (cooldown_after_file fallback_monitor (390 * Second)
       (demo_state\<lparr>clock := 400 * Second\<rparr>))) = 460 * Second \<and>
   lastCoolDown (reached (cooldown_after_file fallback_monitor (390 * Second)
       (demo_state\<lparr>clock := 400 * Second\<rparr>))) = Some (400 * Second) \<and>
   trace (reached (cooldown_after_file fallback_monitor (5 * Second)
       (demo_state\<lparr>clock := 45 * Second\<rparr>))) = [Sleep FixedCoolDown (60 * Second)] \<and>
   trace (reached (cooldown_after_file fallback_monitor 0
       (demo_state\<lparr>clock := 10 * Second\<rparr>))) = []"
    by (simp add: t demo_state_def maxFileProcessTime_def maxTotalProcessTime_def
        coolDownPeriod_def Second_def Minute_def)
  from demo_slow_file obtain s' where
    p: "process_file fallback_monitor ''docs/demo'' slow_world ''/p/login.go'' demo_state = Done s'"
    and tr: "trace s' = [GenerateComments ''/p/login.go'',
           WriteDoc ''/p/login.go'' ''docs/demo/login.go.txt'',
           SetFileHash ''/p/login.go'' ''h1'', Sleep FixedCoolDown (60 * Second)]"
    and cl: "clock s' = 100 * Second"
    by blast
  have m: "Sleep FixedCoolDown (60 * Second)
      \<in> set (drop (length (trace demo_state)) (trace s'))"
    by (simp add: tr demo_state_def)
  from u[THEN conjunct2, THEN conjunct1, rule_format, OF conjI, OF p m]
  have b: "write_ok (slow_world ''/p/login.go'')" "startTotalTime s' = clock s'" by blast+
  from demo_quick_file obtain q where
    pq: "process_file fallback_monitor ''docs/demo'' demo_world ''/p/login.go'' demo_state = Done q"
    and tq: "trace q = [GenerateComments ''/p/login.go'',
           WriteDoc ''/p/login.go'' ''docs/demo/login.go.txt'',
           SetFileHash ''/p/login.go'' ''h1'']"
    by blast
  have wq: "WriteDoc ''/p/login.go'' ''docs/demo/login.go.txt''
      \<in> set (drop (length (trace demo_state)) (trace q))"
    by (simp add: tq demo_state_def)
  have nq: "\<forall>d. Sleep FixedCoolDown d \<notin> set (drop (length (trace demo_state)) (trace q))"
    by (simp add: tq demo_state_def)
  from u[THEN conjunct2, THEN conjunct2, THEN conjunct1, rule_format, OF conjI, OF pq conjI,
      OF wq nq]
  have c: "clock q - clock demo_state \<le> maxFileProcessTime" by blast
  from demo_slow_failing_file obtain x where
    px: "process_file fallback_monitor ''docs/demo'' slow_failing_world ''/p/login.go'' demo_state
          = Done x"
    and tx: "trace x = [GenerateComments ''/p/login.go'']"
    by blast
  have nx: "\<forall>p. WriteDoc ''/p/login.go'' p \<notin> set (drop (length (trace demo_state)) (trace x))"
    by (simp add: tx demo_state_def)
  from u[THEN conjunct2, THEN conjunct2, THEN conjunct2, rule_format, OF conjI, OF px nx]
  have d: "startTotalTime x = startTotalTime demo_state" by blast
  from a p tr cl b pq c px d show ?thesis by simp
qed

text \<open>
  In fallback mode, a file on which the work takes four hundred seconds and for which the
  documentation model then fails: the iteration has taken more than both limits and
  returns with no sleep made, \<open>startTotalTime\<close> as it was and \<open>lastCoolDown\<close> not set.
\<close>

theorem fallback_fixed_cooldown_counterexample:
  "useFallback fallback_monitor \<and>
   returned (process_file fallback_monitor ''docs/demo'' slow_failing_world ''/p/login.go''
     demo_state) \<and>
   trace (reached (process_file fallback_monitor ''docs/demo'' slow_failing_world ''/p/login.go''
     demo_state)) = [GenerateComments ''/p/login.go''] \<and>
   clock (reached (process_file fallback_monitor ''docs/demo'' slow_failing_world ''/p/login.go''
     demo_state)) - clock demo_state > maxFileProcessTime \<and>
   clock (reached (process_file fallback_monitor ''docs/demo'' slow_failing_world ''/p/login.go''
     demo_state)) - startTotalTime demo_state > maxTotalProcessTime \<and>
   startTotalTime (reached (process_file fallback_monitor ''docs/demo'' slow_failing_world
     ''/p/login.go'' demo_state)) = startTotalTime demo_state \<and>
   lastCoolDown (reached (process_file fallback_monitor ''docs/demo'' slow_failing_world
     ''/p/login.go'' demo_state)) = None \<and>
   returned (indexCodebase ''docs'' False False ''demo'' ''/p'' [] [] demo_tree
     slow_failing_world (demo_store True) demo_state) \<and>
   trace (snd (reached (indexCodebase ''docs'' False False ''demo'' ''/p'' [] [] demo_tree
     slow_failing_world (demo_store True) demo_state))) =
     [GenerateComments ''/p/login.go'', RemoveStore, CreateVectorStore ''demo'']"
proof -
  have r: "case indexCodebase ''docs'' False False ''demo'' ''/p'' [] [] demo_tree
     slow_failing_world (demo_store True) demo_state of
      Pending x \<Rightarrow> False
    | Done (err, s') \<Rightarrow>
        trace s' = [GenerateComments ''/p/login.go'', RemoveStore, CreateVectorStore ''demo'']"
    by (simp add: demo_files run_defs demo_defs)
  have w: "returned (indexCodebase ''docs'' False False ''demo'' ''/p'' [] [] demo_tree
     slow_failing_world (demo_store True) demo_state) \<and>
   trace (snd (reached (indexCodebase ''docs'' False False ''demo'' ''/p'' [] [] demo_tree
     slow_failing_world (demo_store True) demo_state))) =
     [GenerateComments ''/p/login.go'', RemoveStore, CreateVectorStore ''demo'']"
    using r by (auto split: outcome.splits)
  from demo_slow_failing_file obtain x where
    "process_file fallback_monitor ''docs/demo'' slow_failing_world ''/p/login.go'' demo_state
          = Done x"
    "trace x = [GenerateComments ''/p/login.go'']" "clock x = 400 * Second"
    "startTotalTime x = 0" "lastCoolDown x = None"
    by blast
  with w show ?thesis
    by (simp add: fallback_monitor_def NewTemperatureMonitor_def demo_state_def
        maxFileProcessTime_def maxTotalProcessTime_def Second_def Minute_def)
qed








end
